theory Spec2Isabelle
  imports Main
begin

section \<open>JavaScript values and builtins\<close>

text \<open>
  The values that flow through the source
  \<^verbatim>\<open>components/google_calendar/sources/new-or-updated-event-instant/new-or-updated-event-instant.mjs\<close>
  outside of event payloads are identifiers, tokens and timestamps: in the remote API's
  JSON they are strings, and in JavaScript they may also be missing (\<^verbatim>\<open>undefined\<close>) or
  \<^verbatim>\<open>null\<close> (the value the source itself stores on teardown).
\<close>

datatype jsval = JUndefined | JNull | JStr string

text \<open>JavaScript truthiness, as used by \<^verbatim>\<open>id && resourceId\<close> and \<^verbatim>\<open>!nextSyncToken\<close>.\<close>

fun truthy :: "jsval \<Rightarrow> bool" where
  "truthy JUndefined = False"
| "truthy JNull = False"
| "truthy (JStr s) = (s \<noteq> [])"

text \<open>String conversion of a value inside a template literal.\<close>

fun to_string :: "jsval \<Rightarrow> string" where
  "to_string JUndefined = ''undefined''"
| "to_string JNull = ''null''"
| "to_string (JStr s) = s"

text \<open>
  A JavaScript number that is either \<^verbatim>\<open>NaN\<close> (\<open>None\<close>) or an integer. Time values
  (\<^verbatim>\<open>Date.parse\<close>, \<^verbatim>\<open>getTime\<close>) are of this kind, with magnitude at most
  \<open>8.64 * 10^15\<close>, where double arithmetic on integers is exact.
\<close>

type_synonym jsnum = "int option"

text \<open>Decimal digits of a natural number, most significant first.\<close>

definition digit_char :: "nat \<Rightarrow> char" where
  "digit_char d = ''0123456789'' ! d"

fun digits_of :: "nat \<Rightarrow> string" where
  "digits_of n = (if n < 10 then [digit_char n] else digits_of (n div 10) @ [digit_char (n mod 10)])"

declare digits_of.simps [simp del]

text \<open>
  \<^verbatim>\<open>Number::toString\<close> on \<^verbatim>\<open>NaN\<close> and on integers below \<open>10^21\<close> in magnitude (beyond
  that JavaScript switches to exponent notation; no time value is that large).
\<close>

fun number_to_string :: "jsnum \<Rightarrow> string" where
  "number_to_string None = ''NaN''"
| "number_to_string (Some n) =
     (if n < 0 then CHR ''-'' # digits_of (nat (- n)) else digits_of (nat n))"

text \<open>\<^verbatim>\<open>Math.abs(a - b)\<close> and \<^verbatim>\<open>x <= bound\<close> with \<^verbatim>\<open>NaN\<close> written out.\<close>

fun abs_diff :: "jsnum \<Rightarrow> jsnum \<Rightarrow> jsnum" where
  "abs_diff (Some a) (Some b) = Some \<bar>a - b\<bar>"
| "abs_diff _ _ = None"

fun num_le :: "jsnum \<Rightarrow> int \<Rightarrow> bool" where
  "num_le None _ = False"
| "num_le (Some a) b = (a \<le> b)"

text \<open>\<^verbatim>\<open>a > b\<close> for an integer \<open>a\<close> and a possibly-\<^verbatim>\<open>NaN\<close> \<open>b\<close>.\<close>

fun int_gt_num :: "int \<Rightarrow> jsnum \<Rightarrow> bool" where
  "int_gt_num _ None = False"
| "int_gt_num a (Some b) = (a > b)"

text \<open>
  \<^verbatim>\<open>parseInt(v)\<close> with no radix: the argument is converted to a string, leading white
  space is skipped, an optional sign is read, a \<^verbatim>\<open>0x\<close> prefix selects radix 16, and the
  longest prefix of digits is the result; no digit at all gives \<^verbatim>\<open>NaN\<close>.

  The white space that \<^verbatim>\<open>parseInt\<close> skips is JavaScript's \<^verbatim>\<open>WhiteSpace\<close> and
  \<^verbatim>\<open>LineTerminator\<close>: TAB, LF, VT, FF, CR, SP, and beyond ASCII U+00A0, U+1680,
  U+2000 to U+200A, U+2028, U+2029, U+202F, U+205F, U+3000 and U+FEFF. A \<open>string\<close> is a
  list of bytes, so a character beyond ASCII is its UTF-8 encoding. \<open>ws_length s\<close> is the
  number of bytes of the white-space character \<open>s\<close> starts with, and 0 when it starts
  with none.
\<close>

definition ws_length :: "string \<Rightarrow> nat" where
  "ws_length s =
     (if take 1 s \<in> set [[CHR 0x09], [CHR 0x0A], [CHR 0x0B], [CHR 0x0C], [CHR 0x0D], [CHR 0x20]]
      then 1
      else if take 2 s = [CHR 0xC2, CHR 0xA0] then 2
      else if take 3 s \<in> set
          [[CHR 0xE1, CHR 0x9A, CHR 0x80],
           [CHR 0xE2, CHR 0x80, CHR 0x80], [CHR 0xE2, CHR 0x80, CHR 0x81],
           [CHR 0xE2, CHR 0x80, CHR 0x82], [CHR 0xE2, CHR 0x80, CHR 0x83],
           [CHR 0xE2, CHR 0x80, CHR 0x84], [CHR 0xE2, CHR 0x80, CHR 0x85],
           [CHR 0xE2, CHR 0x80, CHR 0x86], [CHR 0xE2, CHR 0x80, CHR 0x87],
           [CHR 0xE2, CHR 0x80, CHR 0x88], [CHR 0xE2, CHR 0x80, CHR 0x89],
           [CHR 0xE2, CHR 0x80, CHR 0x8A],
           [CHR 0xE2, CHR 0x80, CHR 0xA8], [CHR 0xE2, CHR 0x80, CHR 0xA9],
           [CHR 0xE2, CHR 0x80, CHR 0xAF], [CHR 0xE2, CHR 0x81, CHR 0x9F],
           [CHR 0xE3, CHR 0x80, CHR 0x80], [CHR 0xEF, CHR 0xBB, CHR 0xBF]]
      then 3
      else 0)"

text \<open>
  Skipping the leading white space: every step removes at least one byte, so
  \<open>length s\<close> steps are enough.
\<close>

primrec skip_ws_steps :: "nat \<Rightarrow> string \<Rightarrow> string" where
  "skip_ws_steps 0 s = s"
| "skip_ws_steps (Suc n) s =
     (if ws_length s = 0 then s else skip_ws_steps n (drop (ws_length s) s))"

definition skip_ws :: "string \<Rightarrow> string" where
  "skip_ws s = skip_ws_steps (length s) s"

definition digit_val :: "nat \<Rightarrow> char \<Rightarrow> nat option" where
  "digit_val radix c =
     (let n = (of_char c :: nat) in
      if 48 \<le> n \<and> n \<le> 57 then Some (n - 48)
      else if radix = 16 \<and> 97 \<le> n \<and> n \<le> 102 then Some (n - 87)
      else if radix = 16 \<and> 65 \<le> n \<and> n \<le> 70 then Some (n - 55)
      else None)"

definition parseInt :: "jsval \<Rightarrow> jsnum" where
  "parseInt v =
     (let s = skip_ws (to_string v);
          neg = (take 1 s = ''-'');
          s1 = (if take 1 s = ''-'' \<or> take 1 s = ''+'' then drop 1 s else s);
          hex = (take 2 s1 = ''0x'' \<or> take 2 s1 = ''0X'');
          radix = (if hex then 16 else 10);
          s2 = (if hex then drop 2 s1 else s1);
          ds = takeWhile (\<lambda>c. digit_val radix c \<noteq> None) s2;
          m = foldl (\<lambda>a c. a * radix + (case digit_val radix c of Some d \<Rightarrow> d | None \<Rightarrow> 0)) 0 ds
      in if ds = [] then None else Some (if neg then - int m else int m))"

text \<open>
  \<^verbatim>\<open>new Date(x).getTime()\<close>: the time value is clipped, a number beyond
  \<open>8.64 * 10^15\<close> ms in magnitude makes an invalid date whose time is \<^verbatim>\<open>NaN\<close>.
\<close>

definition Date_getTime :: "jsnum \<Rightarrow> jsnum" where
  "Date_getTime x =
     (case x of None \<Rightarrow> None
      | Some n \<Rightarrow> if \<bar>n\<bar> > 8640000000000000 then None else Some n)"

section \<open>Data model\<close>

text \<open>
  A calendar event as delivered by the change feed; the source reads \<^verbatim>\<open>id\<close>,
  \<^verbatim>\<open>summary\<close>, \<^verbatim>\<open>created\<close>, \<^verbatim>\<open>updated\<close> and \<^verbatim>\<open>status\<close> and passes
  the object on unchanged.
\<close>

record calendar_event =
  ev_id :: jsval
  summary :: jsval
  created :: jsval
  updated :: jsval
  status :: jsval

text \<open>The metadata object returned by \<^verbatim>\<open>generateMeta\<close>.\<close>

record meta =
  meta_id :: string
  meta_summary :: jsval
  meta_ts :: jsnum

text \<open>The props of the component that the methods read through \<^verbatim>\<open>this\<close>.\<close>

record component =
  calendarIds :: "string list"
  newOnly :: bool
  http_endpoint :: string

text \<open>
  The component declares no prop, method or field named \<^verbatim>\<open>calendarId\<close>, so the property
  read \<^verbatim>\<open>this.calendarId\<close> in \<^verbatim>\<open>run\<close> evaluates to \<^verbatim>\<open>undefined\<close>.
\<close>

definition this_calendarId :: "component \<Rightarrow> jsval" where
  "this_calendarId this = JUndefined"

section \<open>Relevance and metadata\<close>

text \<open>
  \<^verbatim>\<open>Date.parse\<close> is a builtin of the runtime; its implementation is not part of the
  repository, so the functions that call it take it as the parameter \<open>Date_parse\<close>.
\<close>

definition isNewEvent :: "(jsval \<Rightarrow> jsnum) \<Rightarrow> calendar_event \<Rightarrow> bool" where
  "isNewEvent Date_parse event =
     (let createdTimestampMilliseconds = Date_parse (created event);
          updatedTimestampMilliseconds = Date_parse (updated event);
          diffMilliseconds = abs_diff updatedTimestampMilliseconds createdTimestampMilliseconds;
          maxDiffMilliseconds = 2000
      in num_le diffMilliseconds maxDiffMilliseconds)"

definition isEventRelevant :: "(jsval \<Rightarrow> jsnum) \<Rightarrow> component \<Rightarrow> calendar_event \<Rightarrow> bool" where
  "isEventRelevant Date_parse this event = (\<not> newOnly this \<or> isNewEvent Date_parse event)"

definition generateMeta :: "(jsval \<Rightarrow> jsnum) \<Rightarrow> calendar_event \<Rightarrow> meta" where
  "generateMeta Date_parse event =
     (let ts = Date_parse (updated event)
      in \<lparr> meta_id = to_string (ev_id event) @ ''-'' @ number_to_string ts,
           meta_summary = summary event,
           meta_ts = ts \<rparr>)"

section \<open>Persistent store, remote API and effects\<close>

text \<open>
  Everything an invocation does to the outside is recorded, in order, in a trace: the
  calls to the calendar API client (\<^verbatim>\<open>watch\<close>, \<^verbatim>\<open>fullSync\<close>, \<^verbatim>\<open>stop\<close>,
  \<^verbatim>\<open>list\<close>) with their arguments, the writes to the store, the emitted events and the
  console output.
\<close>

datatype effect =
    Watch string string string \<comment> \<open>\<^verbatim>\<open>calendarId\<close>, \<^verbatim>\<open>requestBody.id\<close>, \<^verbatim>\<open>requestBody.address\<close>\<close>
  | FullSync jsval \<comment> \<open>the calendar id argument\<close>
  | Stop jsval jsval \<comment> \<open>\<^verbatim>\<open>requestBody.id\<close>, \<^verbatim>\<open>requestBody.resourceId\<close>\<close>
  | ListEvents string jsval jsval \<comment> \<open>\<^verbatim>\<open>calendarId\<close>, \<^verbatim>\<open>syncToken\<close>, \<^verbatim>\<open>pageToken\<close>\<close>
  | DbSet string jsval
  | Emit calendar_event meta
  | Log string

text \<open>The \<^verbatim>\<open>data\<close> of a watch response.\<close>

record watch_data =
  wd_id :: jsval
  wd_resourceId :: jsval
  wd_expiration :: jsval

text \<open>
  A list response: \<^verbatim>\<open>status\<close> and \<^verbatim>\<open>data\<close>; \<^verbatim>\<open>data\<close> and its \<^verbatim>\<open>items\<close> may be
  missing, in which case the destructuring defaults of the source apply.
\<close>

record sync_data =
  items :: "calendar_event list option"
  nextPageToken :: jsval
  nextSyncToken :: jsval

record list_response =
  lr_status :: int
  lr_data :: "sync_data option"

text \<open>
  The world an invocation runs in: the key-value store, the trace so far, and what the
  remote side and the UUID generator will answer to the calls still to come (the head of
  each sequence answers the next call of that kind).
\<close>

record world =
  db :: "string \<rightharpoonup> jsval"
  trace :: "effect list"
  uuids :: "nat \<Rightarrow> string"
  watch_resps :: "nat \<Rightarrow> watch_data"
  fullSync_resps :: "nat \<Rightarrow> jsval"
  stop_resps :: "nat \<Rightarrow> int"
  list_resps :: "nat \<Rightarrow> list_response"

definition db_get :: "world \<Rightarrow> string \<Rightarrow> jsval" where
  "db_get w key = (case db w key of None \<Rightarrow> JUndefined | Some v \<Rightarrow> v)"

definition db_set :: "string \<Rightarrow> jsval \<Rightarrow> world \<Rightarrow> world" where
  "db_set key v w = w\<lparr>db := (db w)(key \<mapsto> v), trace := trace w @ [DbSet key v]\<rparr>"

definition console_log :: "string \<Rightarrow> world \<Rightarrow> world" where
  "console_log msg w = w\<lparr>trace := trace w @ [Log msg]\<rparr>"

definition emit :: "calendar_event \<Rightarrow> meta \<Rightarrow> world \<Rightarrow> world" where
  "emit event m w = w\<lparr>trace := trace w @ [Emit event m]\<rparr>"

definition uuid :: "world \<Rightarrow> string \<times> world" where
  "uuid w = (uuids w 0, w\<lparr>uuids := (\<lambda>n. uuids w (Suc n))\<rparr>)"

definition googleCalendar_watch :: "string \<Rightarrow> string \<Rightarrow> string \<Rightarrow> world \<Rightarrow> watch_data \<times> world" where
  "googleCalendar_watch calendarId ident address w =
     (watch_resps w 0,
      w\<lparr>watch_resps := (\<lambda>n. watch_resps w (Suc n)),
        trace := trace w @ [Watch calendarId ident address]\<rparr>)"

definition googleCalendar_fullSync :: "jsval \<Rightarrow> world \<Rightarrow> jsval \<times> world" where
  "googleCalendar_fullSync calendarId w =
     (fullSync_resps w 0,
      w\<lparr>fullSync_resps := (\<lambda>n. fullSync_resps w (Suc n)),
        trace := trace w @ [FullSync calendarId]\<rparr>)"

definition googleCalendar_stop :: "jsval \<Rightarrow> jsval \<Rightarrow> world \<Rightarrow> int \<times> world" where
  "googleCalendar_stop ident resourceId w =
     (stop_resps w 0,
      w\<lparr>stop_resps := (\<lambda>n. stop_resps w (Suc n)),
        trace := trace w @ [Stop ident resourceId]\<rparr>)"

definition googleCalendar_list :: "string \<Rightarrow> jsval \<Rightarrow> jsval \<Rightarrow> world \<Rightarrow> list_response \<times> world" where
  "googleCalendar_list calendarId syncToken pageToken w =
     (list_resps w 0,
      w\<lparr>list_resps := (\<lambda>n. list_resps w (Suc n)),
        trace := trace w @ [ListEvents calendarId syncToken pageToken]\<rparr>)"

section \<open>Subscription management\<close>

text \<open>\<^verbatim>\<open>makeWatchRequest\<close>: the body of the \<^verbatim>\<open>for\<close> loop, then the loop.\<close>

definition makeWatchRequest_body :: "component \<Rightarrow> string \<Rightarrow> world \<Rightarrow> world" where
  "makeWatchRequest_body this calendarId w =
     (let (ident, w1) = uuid w;
          (data, w2) = googleCalendar_watch calendarId ident (http_endpoint this) w1;
          (nextSyncToken, w3) = googleCalendar_fullSync (JStr calendarId) w2;
          w4 = db_set (calendarId @ ''.nextSyncToken'') nextSyncToken w3;
          w5 = db_set (calendarId @ ''.channelId'') (wd_id data) w4;
          w6 = db_set (calendarId @ ''.resourceId'') (wd_resourceId data) w5
      in db_set (calendarId @ ''.expiration'') (wd_expiration data) w6)"

fun makeWatchRequest_loop :: "component \<Rightarrow> string list \<Rightarrow> world \<Rightarrow> world" where
  "makeWatchRequest_loop this [] w = w"
| "makeWatchRequest_loop this (calendarId # rest) w =
     makeWatchRequest_loop this rest (makeWatchRequest_body this calendarId w)"

definition makeWatchRequest :: "component \<Rightarrow> world \<Rightarrow> world" where
  "makeWatchRequest this w = makeWatchRequest_loop this (calendarIds this) w"

text \<open>\<^verbatim>\<open>stopWatchRequest\<close>: the body of the \<^verbatim>\<open>for\<close> loop, then the loop.\<close>

definition stopWatchRequest_body :: "string \<Rightarrow> world \<Rightarrow> world" where
  "stopWatchRequest_body calendarId w =
     (let ident = db_get w (calendarId @ ''.channelId'');
          resourceId = db_get w (calendarId @ ''.resourceId'')
      in if truthy ident \<and> truthy resourceId then
           (let (stopResp_status, w1) = googleCalendar_stop ident resourceId w
            in if stopResp_status = 204 then
                 (let w2 = console_log ''webhook deactivated'' w1;
                      w3 = db_set (calendarId @ ''.nextSyncToken'') JNull w2;
                      w4 = db_set (calendarId @ ''.channelId'') JNull w3;
                      w5 = db_set (calendarId @ ''.resourceId'') JNull w4
                  in db_set (calendarId @ ''.expiration'') JNull w5)
               else console_log ''There was a problem deactivating the webhook'' w1)
         else w)"

fun stopWatchRequest_loop :: "string list \<Rightarrow> world \<Rightarrow> world" where
  "stopWatchRequest_loop [] w = w"
| "stopWatchRequest_loop (calendarId # rest) w =
     stopWatchRequest_loop rest (stopWatchRequest_body calendarId w)"

definition stopWatchRequest :: "component \<Rightarrow> world \<Rightarrow> world" where
  "stopWatchRequest this w = stopWatchRequest_loop (calendarIds this) w"

text \<open>The \<^verbatim>\<open>activate\<close> and \<^verbatim>\<open>deactivate\<close> hooks.\<close>

definition activate :: "component \<Rightarrow> world \<Rightarrow> world" where
  "activate this w = makeWatchRequest this w"

definition deactivate :: "component \<Rightarrow> world \<Rightarrow> world" where
  "deactivate this w = stopWatchRequest this w"

section \<open>The \<^verbatim>\<open>run\<close> handler\<close>

text \<open>
  The event handed to \<^verbatim>\<open>run\<close>: a timer tick carries \<^verbatim>\<open>interval_seconds\<close>, an inbound
  HTTP notification carries \<^verbatim>\<open>headers\<close>.
\<close>

record run_event =
  interval_seconds :: "int option"
  headers :: "(string \<rightharpoonup> string) option"

text \<open>\<^verbatim>\<open>event?.headers?.[name]\<close>\<close>

definition header :: "run_event \<Rightarrow> string \<Rightarrow> jsval" where
  "header event name =
     (case headers event of None \<Rightarrow> JUndefined
      | Some h \<Rightarrow> (case h name of None \<Rightarrow> JUndefined | Some v \<Rightarrow> JStr v))"

text \<open>The truthiness test \<^verbatim>\<open>if (event.interval_seconds)\<close>.\<close>

definition is_timer_tick :: "run_event \<Rightarrow> bool" where
  "is_timer_tick event = (case interval_seconds event of None \<Rightarrow> False | Some n \<Rightarrow> n \<noteq> 0)"

text \<open>\<^verbatim>\<open>this.calendarIds[0]\<close> inside a template literal; an empty array gives \<^verbatim>\<open>undefined\<close>.\<close>

definition first_calendarId :: "component \<Rightarrow> string" where
  "first_calendarId this = (case calendarIds this of [] \<Rightarrow> ''undefined'' | c # _ \<Rightarrow> c)"

text \<open>The \<^verbatim>\<open>forEach\<close> callback over the events that passed the relevance filter.\<close>

fun forEach_emit :: "(jsval \<Rightarrow> jsnum) \<Rightarrow> calendar_event list \<Rightarrow> world \<Rightarrow> world" where
  "forEach_emit Date_parse [] w = w"
| "forEach_emit Date_parse (event # rest) w =
     forEach_emit Date_parse rest
       (if status event = JStr ''cancelled'' then console_log ''Event cancelled. Exiting.'' w
        else emit event (generateMeta Date_parse event) w)"

definition empty_sync_data :: sync_data where
  "empty_sync_data = \<lparr> items = None, nextPageToken = JUndefined, nextSyncToken = JUndefined \<rparr>"

text \<open>
  The loop \<^verbatim>\<open>while (!nextSyncToken)\<close> of one calendar. Nothing in the source bounds the
  number of iterations, so the model takes a bound on the number of list requests: the
  result is \<open>Some\<close> of the final \<^verbatim>\<open>nextSyncToken\<close> when the loop has ended within the
  bound and \<open>None\<close> when it is still running, together with the world reached.
\<close>

fun list_while ::
  "nat \<Rightarrow> (jsval \<Rightarrow> jsnum) \<Rightarrow> component \<Rightarrow> string \<Rightarrow> jsval \<Rightarrow> jsval \<Rightarrow> jsval \<Rightarrow> world
     \<Rightarrow> jsval option \<times> world" where
  "list_while 0 Date_parse this calendarId syncToken nextSyncToken' nextPageToken' w =
     (if truthy nextSyncToken' then (Some nextSyncToken', w) else (None, w))"
| "list_while (Suc fuel) Date_parse this calendarId syncToken nextSyncToken' nextPageToken' w =
     (if truthy nextSyncToken' then (Some nextSyncToken', w)
      else
        (let (resp, w1) = googleCalendar_list calendarId syncToken nextPageToken' w;
             syncData = (case lr_data resp of None \<Rightarrow> empty_sync_data | Some d \<Rightarrow> d);
             syncStatus = lr_status resp
         in if syncStatus = 410 then
              (let w2 = console_log ''Sync token invalid, resyncing'' w1;
                   (tok, w3) = googleCalendar_fullSync (this_calendarId this) w2
               in (Some tok, w3))
            else
              (let events = (case items syncData of None \<Rightarrow> [] | Some xs \<Rightarrow> xs);
                   w2 = forEach_emit Date_parse (filter (isEventRelevant Date_parse this) events) w1
               in list_while fuel Date_parse this calendarId syncToken
                    (nextSyncToken syncData) (nextPageToken syncData) w2)))"

text \<open>
  The loop \<^verbatim>\<open>for (const calendarId of this.calendarIds)\<close> that fetches and emits. The
  flag of the result tells whether the loop ran to its end.
\<close>

fun fetch_loop ::
  "nat \<Rightarrow> (jsval \<Rightarrow> jsnum) \<Rightarrow> component \<Rightarrow> string list \<Rightarrow> world \<Rightarrow> bool \<times> world" where
  "fetch_loop fuel Date_parse this [] w = (True, w)"
| "fetch_loop fuel Date_parse this (calendarId # rest) w =
     (let syncToken = db_get w (calendarId @ ''.nextSyncToken'')
      in case list_while fuel Date_parse this calendarId syncToken JNull JNull w of
           (None, w1) \<Rightarrow> (False, w1)
         | (Some tok, w1) \<Rightarrow>
             fetch_loop fuel Date_parse this rest
               (db_set (calendarId @ ''.nextSyncToken'') tok w1))"

text \<open>
  \<^verbatim>\<open>run(event)\<close>. \<open>now\<close> is the time value of \<^verbatim>\<open>new Date()\<close>; \<open>fuel\<close> bounds the list
  requests per calendar. The flag of the result tells whether the invocation returned.
\<close>

definition run ::
  "nat \<Rightarrow> (jsval \<Rightarrow> jsnum) \<Rightarrow> component \<Rightarrow> int \<Rightarrow> run_event \<Rightarrow> world \<Rightarrow> bool \<times> world" where
  "run fuel Date_parse this now event w =
     (if is_timer_tick event then
        (let intervalMs = (case interval_seconds event of None \<Rightarrow> 0 | Some n \<Rightarrow> n) * 1000;
             expiration = db_get w (first_calendarId this @ ''.expiration'');
             expireDate_getTime = Date_getTime (parseInt expiration)
         in if int_gt_num (now + intervalMs) expireDate_getTime
            then (True, stopWatchRequest this (makeWatchRequest this w))
            else (True, w))
      else
        (let channelIds = map (\<lambda>calendarId. db_get w (calendarId @ ''.channelId'')) (calendarIds this);
             incomingChannelId = header event ''x-goog-channel-id''
         in if incomingChannelId \<notin> set channelIds then
              (True, console_log (''Unexpected channel ID '' @ to_string incomingChannelId @
                 ''. This likely means there are multiple, older subscriptions active.'') w)
            else
              (let state = header event ''x-goog-resource-state''
               in if state = JStr ''exists'' then
                    fetch_loop fuel Date_parse this (calendarIds this) w
                  else if state = JStr ''not_exists'' then
                    (True, console_log ''Resource does not exist. Exiting.'' w)
                  else if state = JStr ''sync'' then
                    (True, console_log ''New channel created'' w)
                  else
                    (True, console_log (''Unknown state: '' @ to_string state) w))))"

section \<open>Notions used to state the properties\<close>

text \<open>The effects an invocation added to the trace of the world it started in.\<close>

definition new_effects :: "world \<Rightarrow> world \<Rightarrow> effect list" where
  "new_effects w w' = drop (length (trace w)) (trace w')"

text \<open>
  \<open>grows P w w'\<close>: the trace of \<open>w'\<close> extends the trace of \<open>w\<close>, and every effect
  added satisfies \<open>P\<close>.
\<close>

definition grows :: "(effect \<Rightarrow> bool) \<Rightarrow> world \<Rightarrow> world \<Rightarrow> bool" where
  "grows P w w' = (take (length (trace w)) (trace w') = trace w \<and> list_all P (new_effects w w'))"

fun is_cancelled_emit :: "effect \<Rightarrow> bool" where
  "is_cancelled_emit (Emit event m) = (status event = JStr ''cancelled'')"
| "is_cancelled_emit _ = False"

abbreviation (input) nc :: "effect \<Rightarrow> bool" where
  "nc \<equiv> (\<lambda>e. \<not> is_cancelled_emit e)"

fun is_stop :: "effect \<Rightarrow> bool" where
  "is_stop (Stop i r) = True"
| "is_stop _ = False"

text \<open>The \<^verbatim>\<open>data\<close> of a list response after the destructuring default.\<close>

definition default_data :: "list_response \<Rightarrow> sync_data" where
  "default_data resp = (case lr_data resp of None \<Rightarrow> empty_sync_data | Some d \<Rightarrow> d)"

text \<open>A list response that ends the \<^verbatim>\<open>while\<close> loop: status 410, or a truthy \<^verbatim>\<open>nextSyncToken\<close>.\<close>

definition stops_loop :: "list_response \<Rightarrow> bool" where
  "stops_loop resp = (lr_status resp = 410 \<or> truthy (nextSyncToken (default_data resp)))"

text \<open>
  The world after one iteration of the \<^verbatim>\<open>while\<close> loop that did not see status 410: the
  list request was made and the relevant events of the page went through the
  \<^verbatim>\<open>forEach\<close> callback.
\<close>

definition page_world ::
  "(jsval \<Rightarrow> jsnum) \<Rightarrow> component \<Rightarrow> string \<Rightarrow> jsval \<Rightarrow> jsval \<Rightarrow> world \<Rightarrow> world" where
  "page_world Date_parse this c st npt w =
     forEach_emit Date_parse
       (filter (isEventRelevant Date_parse this)
          (case items (default_data (list_resps w 0)) of None \<Rightarrow> [] | Some xs \<Rightarrow> xs))
       (snd (googleCalendar_list c st npt w))"

text \<open>
  What the \<^verbatim>\<open>forEach\<close> over one page adds to the trace: for every relevant event of the
  page, in order, the console message when it is cancelled and its emission otherwise.
\<close>

definition page_effects :: "(jsval \<Rightarrow> jsnum) \<Rightarrow> component \<Rightarrow> list_response \<Rightarrow> effect list" where
  "page_effects Date_parse this resp =
     concat (map (\<lambda>event. if status event = JStr ''cancelled''
                            then [Log ''Event cancelled. Exiting.'']
                            else [Emit event (generateMeta Date_parse event)])
               (filter (isEventRelevant Date_parse this)
                  (case items (default_data resp) of None \<Rightarrow> [] | Some xs \<Rightarrow> xs)))"

text \<open>
  The effects of one calendar's fetch cycle, from the list responses it consumes: every
  response is preceded by its list request, which carries the calendar, the sync token read
  at the start of the cycle and the page token of the response before (\<^verbatim>\<open>null\<close> for the
  first); a response with status 410 is followed by the resync, which the source calls with
  \<^verbatim>\<open>this.calendarId\<close>, that is \<^verbatim>\<open>undefined\<close>, any other by the effects of its page.
\<close>

fun cycle_effects ::
  "(jsval \<Rightarrow> jsnum) \<Rightarrow> component \<Rightarrow> string \<Rightarrow> jsval \<Rightarrow> jsval \<Rightarrow> list_response list
     \<Rightarrow> effect list" where
  "cycle_effects Date_parse this c st npt [] = []"
| "cycle_effects Date_parse this c st npt (resp # resps) =
     ListEvents c st npt #
     (if lr_status resp = 410
      then [Log ''Sync token invalid, resyncing'', FullSync JUndefined]
      else page_effects Date_parse this resp) @
     cycle_effects Date_parse this c st (nextPageToken (default_data resp)) resps"

text \<open>
  The token a cycle ends with when response \<open>k\<close> is the one that ends it: the answer of
  the resync after status 410, the \<^verbatim>\<open>nextSyncToken\<close> of the response otherwise.
\<close>

definition cycle_token :: "world \<Rightarrow> nat \<Rightarrow> jsval" where
  "cycle_token w k =
     (if lr_status (list_resps w k) = 410 then fullSync_resps w 0
      else nextSyncToken (default_data (list_resps w k)))"

text \<open>
  The world after the fetch cycle of one calendar that consumes the responses \<open>0\<close> to
  \<open>k\<close>: the effects of the cycle and the write of the new token are added to the trace,
  the token is persisted, and the responses consumed are gone.
\<close>

definition cycle_world :: "(jsval \<Rightarrow> jsnum) \<Rightarrow> component \<Rightarrow> string \<Rightarrow> nat \<Rightarrow> world \<Rightarrow> world" where
  "cycle_world Date_parse this c k w =
     w\<lparr>db := (db w)(c @ ''.nextSyncToken'' \<mapsto> cycle_token w k),
       trace := trace w @
         cycle_effects Date_parse this c (db_get w (c @ ''.nextSyncToken'')) JNull
           (map (list_resps w) [0..<Suc k]) @
         [DbSet (c @ ''.nextSyncToken'') (cycle_token w k)],
       fullSync_resps :=
         (if lr_status (list_resps w k) = 410 then (\<lambda>n. fullSync_resps w (Suc n))
          else fullSync_resps w),
       list_resps := (\<lambda>n. list_resps w (n + Suc k))\<rparr>"

text \<open>One cycle per calendar, in the order of the list, each consuming \<open>k + 1\<close> responses.\<close>

fun fetch_world ::
  "(jsval \<Rightarrow> jsnum) \<Rightarrow> component \<Rightarrow> string list \<Rightarrow> nat list \<Rightarrow> world \<Rightarrow> world" where
  "fetch_world Date_parse this (c # cs) (k # ks) w =
     fetch_world Date_parse this cs ks (cycle_world Date_parse this c k w)"
| "fetch_world Date_parse this _ _ w = w"

text \<open>
  \<open>ks\<close> gives, for every calendar of the list, the index of the first response that ends
  its pagination loop, among the responses left when its cycle starts.
\<close>

fun first_stops ::
  "(jsval \<Rightarrow> jsnum) \<Rightarrow> component \<Rightarrow> string list \<Rightarrow> nat list \<Rightarrow> world \<Rightarrow> bool" where
  "first_stops Date_parse this [] [] w = True"
| "first_stops Date_parse this (c # cs) (k # ks) w =
     (stops_loop (list_resps w k) \<and>
      list_all (\<lambda>i. \<not> stops_loop (list_resps w i)) [0..<k] \<and>
      first_stops Date_parse this cs ks (cycle_world Date_parse this c k w))"
| "first_stops Date_parse this _ _ w = False"

text \<open>The four keys under which the state of one calendar is persisted.\<close>

definition resource_keys :: "string \<Rightarrow> string list" where
  "resource_keys calendarId =
     [calendarId @ ''.nextSyncToken'', calendarId @ ''.channelId'',
      calendarId @ ''.resourceId'', calendarId @ ''.expiration'']"

text \<open>The guard \<^verbatim>\<open>id && resourceId\<close> of the teardown loop, on the persisted values.\<close>

definition has_channel :: "world \<Rightarrow> string \<Rightarrow> bool" where
  "has_channel w calendarId =
     (truthy (db_get w (calendarId @ ''.channelId'')) \<and>
      truthy (db_get w (calendarId @ ''.resourceId'')))"

text \<open>The stop call for the channel persisted for a calendar.\<close>

definition stop_call :: "world \<Rightarrow> string \<Rightarrow> effect" where
  "stop_call w calendarId =
     Stop (db_get w (calendarId @ ''.channelId'')) (db_get w (calendarId @ ''.resourceId''))"

text \<open>The console message of the \<^verbatim>\<open>switch\<close> branches that return.\<close>

definition state_message :: "jsval \<Rightarrow> string" where
  "state_message state =
     (if state = JStr ''not_exists'' then ''Resource does not exist. Exiting.''
      else if state = JStr ''sync'' then ''New channel created''
      else ''Unknown state: '' @ to_string state)"

section \<open>Concrete inputs\<close>

text \<open>
  Three timestamps as \<^verbatim>\<open>Date.parse\<close> reads them (milliseconds since the epoch), and
  \<^verbatim>\<open>NaN\<close> for anything else.
\<close>

definition ex_Date_parse :: "jsval \<Rightarrow> jsnum" where
  "ex_Date_parse v =
     (if v = JStr ''2024-05-01T10:00:00.000Z'' then Some 1714557600000
      else if v = JStr ''2024-05-01T10:00:02.000Z'' then Some 1714557602000
      else if v = JStr ''2024-05-01T10:00:02.001Z'' then Some 1714557602001
      else None)"

definition ex_event_new :: calendar_event where
  "ex_event_new =
     \<lparr> ev_id = JStr ''ev1'', summary = JStr ''Standup'',
       created = JStr ''2024-05-01T10:00:00.000Z'', updated = JStr ''2024-05-01T10:00:02.000Z'',
       status = JStr ''confirmed'' \<rparr>"

definition ex_event_edited :: calendar_event where
  "ex_event_edited =
     \<lparr> ev_id = JStr ''ev1'', summary = JStr ''Standup (moved)'',
       created = JStr ''2024-05-01T10:00:00.000Z'', updated = JStr ''2024-05-01T10:00:02.001Z'',
       status = JStr ''confirmed'' \<rparr>"

definition ex_event_cancelled :: calendar_event where
  "ex_event_cancelled =
     \<lparr> ev_id = JStr ''ev2'', summary = JStr ''Lunch'',
       created = JStr ''2024-05-01T10:00:00.000Z'', updated = JStr ''2024-05-01T10:00:02.000Z'',
       status = JStr ''cancelled'' \<rparr>"

definition ex_component :: "string list \<Rightarrow> bool \<Rightarrow> component" where
  "ex_component ids flag =
     \<lparr> calendarIds = ids, newOnly = flag, http_endpoint = ''https://hooks.example/e1'' \<rparr>"

text \<open>Responses of the remote side: a single final page, and an empty response.\<close>

definition ex_final_page :: "calendar_event list \<Rightarrow> string \<Rightarrow> list_response" where
  "ex_final_page evs tok =
     \<lparr> lr_status = 200,
       lr_data = Some \<lparr> items = Some evs, nextPageToken = JUndefined, nextSyncToken = JStr tok \<rparr> \<rparr>"

definition ex_inner_page :: "calendar_event list \<Rightarrow> string \<Rightarrow> list_response" where
  "ex_inner_page evs page =
     \<lparr> lr_status = 200,
       lr_data = Some \<lparr> items = Some evs, nextPageToken = JStr page, nextSyncToken = JUndefined \<rparr> \<rparr>"

definition ex_empty_response :: list_response where
  "ex_empty_response = \<lparr> lr_status = 200, lr_data = None \<rparr>"

definition ex_invalidated :: list_response where
  "ex_invalidated = \<lparr> lr_status = 410, lr_data = None \<rparr>"

text \<open>A three-page feed whose second request is answered with status 410.\<close>

definition ex_feed_invalidated :: "nat \<Rightarrow> list_response" where
  "ex_feed_invalidated n =
     (if n = 0 then ex_inner_page [ex_event_new] ''page-2''
      else if n = 1 then ex_invalidated
      else ex_final_page [ex_event_edited] ''tok-3'')"

text \<open>A feed of two pages for one calendar, then single final pages.\<close>

definition ex_feed_two :: "nat \<Rightarrow> list_response" where
  "ex_feed_two n =
     (if n = 0 then ex_inner_page [ex_event_new] ''page-2''
      else if n = 1 then ex_final_page [ex_event_cancelled, ex_event_edited] ''tok-A''
      else ex_final_page [ex_event_edited] ''tok-B'')"

text \<open>A feed with an inner page, then a response without any token, then the final page.\<close>

definition ex_feed_gap :: "nat \<Rightarrow> list_response" where
  "ex_feed_gap n =
     (if n = 0 then ex_inner_page [] ''page-2''
      else if n = 1 then ex_empty_response
      else ex_final_page [] ''tok-3'')"

text \<open>
  A world in which the calendars \<^verbatim>\<open>cal1\<close> and \<^verbatim>\<open>cal2\<close> are watched; the remote side
  answers the next watch with a new channel and list requests from the given feed.
\<close>

definition ex_world :: "(nat \<Rightarrow> int) \<Rightarrow> (nat \<Rightarrow> list_response) \<Rightarrow> world" where
  "ex_world stops feed =
     \<lparr> db = [''cal1.nextSyncToken'' \<mapsto> JStr ''tok-1'', ''cal1.channelId'' \<mapsto> JStr ''chan-1'',
             ''cal1.resourceId'' \<mapsto> JStr ''res-1'', ''cal1.expiration'' \<mapsto> JStr ''1714557600000'',
             ''cal2.nextSyncToken'' \<mapsto> JStr ''tok-2'', ''cal2.channelId'' \<mapsto> JStr ''chan-2'',
             ''cal2.resourceId'' \<mapsto> JStr ''res-2'', ''cal2.expiration'' \<mapsto> JStr ''1714557600000''],
       trace = [],
       uuids = (\<lambda>n. ''chan-new''),
       watch_resps = (\<lambda>n. \<lparr> wd_id = JStr ''chan-new'', wd_resourceId = JStr ''res-new'',
                              wd_expiration = JStr ''1715162400000'' \<rparr>),
       fullSync_resps = (\<lambda>n. JStr ''tok-fresh''),
       stop_resps = stops,
       list_resps = feed \<rparr>"

definition ex_tick :: run_event where
  "ex_tick = \<lparr> interval_seconds = Some 82800, headers = None \<rparr>"

definition ex_notification :: "string \<Rightarrow> string \<Rightarrow> run_event" where
  "ex_notification channel state =
     \<lparr> interval_seconds = None,
       headers = Some [''x-goog-channel-id'' \<mapsto> channel, ''x-goog-resource-state'' \<mapsto> state] \<rparr>"

section \<open>Relevance and deduplication identifiers\<close>

lemmas ex_defs = ex_Date_parse_def ex_event_new_def ex_event_edited_def ex_event_cancelled_def
  ex_component_def ex_final_page_def ex_inner_page_def ex_empty_response_def ex_invalidated_def
  ex_feed_invalidated_def ex_feed_gap_def ex_world_def ex_tick_def ex_notification_def

lemmas op_defs = db_get_def db_set_def console_log_def emit_def uuid_def googleCalendar_watch_def
  googleCalendar_fullSync_def googleCalendar_stop_def googleCalendar_list_def

lemma digit_char_inj: "a < 10 \<Longrightarrow> b < 10 \<Longrightarrow> digit_char a = digit_char b \<Longrightarrow> a = b"
proof -
  assume a: "a < 10" and b: "b < 10" and eq: "digit_char a = digit_char b"
  from a have ca: "a \<in> {0,1,2,3,4,5,6,7,8,9}" by auto
  from b have cb: "b \<in> {0,1,2,3,4,5,6,7,8,9}" by auto
  from ca cb eq show ?thesis
    by (auto simp: digit_char_def)
qed

lemma digit_char_in: "d < 10 \<Longrightarrow> digit_char d \<in> set ''0123456789''"
  unfolding digit_char_def by (rule nth_mem) simp

lemma digits_of_chars: "set (digits_of n) \<subseteq> set ''0123456789''"
proof (induction n rule: digits_of.induct)
  case (1 n)
  show ?case
  proof (cases "n < 10")
    case True
    then show ?thesis using digit_char_in [of n] by (subst digits_of.simps) simp
  next
    case False
    have "n mod 10 < 10" by simp
    then have "digit_char (n mod 10) \<in> set ''0123456789''" by (rule digit_char_in)
    with False 1 show ?thesis by (subst digits_of.simps) simp
  qed
qed

lemma digits_of_nonempty: "digits_of n \<noteq> []"
  by (subst digits_of.simps) simp

lemma digits_of_inj: "digits_of n = digits_of m \<Longrightarrow> n = m"
proof (induction n arbitrary: m rule: digits_of.induct)
  case (1 n)
  show ?case
  proof (cases "n < 10")
    case n: True
    show ?thesis
    proof (cases "m < 10")
      case True
      with n 1(2) show ?thesis
        by (simp add: digits_of.simps [of n] digits_of.simps [of m] digit_char_inj)
    next
      case False
      with n 1(2) digits_of_nonempty [of "m div 10"] show ?thesis
        by (simp add: digits_of.simps [of n] digits_of.simps [of m])
    qed
  next
    case n: False
    show ?thesis
    proof (cases "m < 10")
      case True
      with n 1(2) digits_of_nonempty [of "n div 10"] show ?thesis
        by (simp add: digits_of.simps [of n] digits_of.simps [of m])
    next
      case False
      with n 1(2) have eq: "digits_of (n div 10) = digits_of (m div 10)"
        and dc: "digit_char (n mod 10) = digit_char (m mod 10)"
        by (simp_all add: digits_of.simps [of n] digits_of.simps [of m])
      from 1(1) [OF n eq] have d: "n div 10 = m div 10" .
      have "n mod 10 = m mod 10" using dc by (intro digit_char_inj) simp_all
      with d show ?thesis by (metis div_mult_mod_eq)
    qed
  qed
qed

lemma digits_of_hd: "\<exists>c cs. digits_of n = c # cs \<and> c \<in> set ''0123456789''"
  using digits_of_chars [of n] digits_of_nonempty [of n]
  by (cases "digits_of n") auto

lemma number_to_string_inj: "number_to_string a = number_to_string b \<Longrightarrow> a = b"
proof (cases a; cases b)
  fix x y assume eq: "number_to_string a = number_to_string b" and a: "a = Some x" and b: "b = Some y"
  obtain c cs where x: "digits_of (nat x) = c # cs" "c \<in> set ''0123456789''"
    using digits_of_hd by blast
  obtain d ds where y: "digits_of (nat y) = d # ds" "d \<in> set ''0123456789''"
    using digits_of_hd by blast
  show "a = b"
  proof (cases "x < 0"; cases "y < 0")
    assume "x < 0" "y < 0"
    with eq a b have "nat (- x) = nat (- y)" by (simp add: digits_of_inj)
    with \<open>x < 0\<close> \<open>y < 0\<close> a b show ?thesis by simp
  next
    assume "x < 0" "\<not> y < 0"
    with eq a b y show ?thesis by auto
  next
    assume "\<not> x < 0" "y < 0"
    with eq a b x show ?thesis by auto
  next
    assume "\<not> x < 0" "\<not> y < 0"
    with eq a b have "nat x = nat y" by (simp add: digits_of_inj)
    with \<open>\<not> x < 0\<close> \<open>\<not> y < 0\<close> a b show ?thesis by simp
  qed
next
  fix y assume eq: "number_to_string a = number_to_string b" and a: "a = None" and b: "b = Some y"
  obtain d ds where y: "digits_of (nat y) = d # ds" "d \<in> set ''0123456789''"
    using digits_of_hd by blast
  from eq a b y show "a = b" by (auto split: if_splits)
next
  fix x assume eq: "number_to_string a = number_to_string b" and a: "a = Some x" and b: "b = None"
  obtain c cs where x: "digits_of (nat x) = c # cs" "c \<in> set ''0123456789''"
    using digits_of_hd by blast
  from eq a b x show "a = b" by (auto split: if_splits)
qed simp

text \<open>
  Claim C6. Two events with the same \<^verbatim>\<open>id\<close> and the same \<^verbatim>\<open>updated\<close> string get the same
  metadata \<^verbatim>\<open>id\<close>; two events with the same \<^verbatim>\<open>id\<close> whose \<^verbatim>\<open>updated\<close> strings parse
  to different timestamps get different metadata \<^verbatim>\<open>id\<close>s.
\<close>

theorem generateMeta_dedupe_id:
  "(ev_id e1 = ev_id e2 \<and> updated e1 = updated e2 \<longrightarrow>
      meta_id (generateMeta Date_parse e1) = meta_id (generateMeta Date_parse e2)) \<and>
   (ev_id e1 = ev_id e2 \<and> Date_parse (updated e1) \<noteq> Date_parse (updated e2) \<longrightarrow>
      meta_id (generateMeta Date_parse e1) \<noteq> meta_id (generateMeta Date_parse e2))"
  by (auto simp: generateMeta_def Let_def dest: number_to_string_inj)

lemma meta_id_value: "meta_id (generateMeta ex_Date_parse ex_event_new) = ''ev1-1714557602000''"
  by (simp add: generateMeta_def ex_Date_parse_def ex_event_new_def digits_of.simps digit_char_def)

theorem generateMeta_dedupe_id_witness:
  "meta_id (generateMeta ex_Date_parse ex_event_new) =
     meta_id (generateMeta ex_Date_parse (ex_event_new\<lparr>summary := JStr ''Renamed''\<rparr>)) \<and>
   meta_id (generateMeta ex_Date_parse ex_event_new) \<noteq>
     meta_id (generateMeta ex_Date_parse ex_event_edited)"
  using generateMeta_dedupe_id [of ex_event_new "ex_event_new\<lparr>summary := JStr ''Renamed''\<rparr>" ex_Date_parse]
    generateMeta_dedupe_id [of ex_event_new ex_event_edited ex_Date_parse]
  by (simp add: ex_Date_parse_def ex_event_new_def ex_event_edited_def)

text \<open>
  Claim C5. With \<^verbatim>\<open>newOnly\<close> off every event is relevant; with \<^verbatim>\<open>newOnly\<close> on an
  event is relevant exactly when both timestamps parse and the absolute difference between
  \<^verbatim>\<open>updated\<close> and \<^verbatim>\<open>created\<close> is at most 2000 ms (2000 included).
\<close>

theorem isEventRelevant_threshold:
  "(\<not> newOnly this \<longrightarrow> isEventRelevant Date_parse this event) \<and>
   (newOnly this \<longrightarrow>
      isEventRelevant Date_parse this event =
        (\<exists>c u. Date_parse (created event) = Some c \<and> Date_parse (updated event) = Some u \<and>
               \<bar>u - c\<bar> \<le> 2000))"
proof -
  have "isNewEvent Date_parse event =
        (\<exists>c u. Date_parse (created event) = Some c \<and> Date_parse (updated event) = Some u \<and>
               \<bar>u - c\<bar> \<le> 2000)"
    by (cases "Date_parse (created event)"; cases "Date_parse (updated event)")
       (simp_all add: isNewEvent_def)
  then show ?thesis by (simp add: isEventRelevant_def)
qed

theorem isEventRelevant_threshold_witness:
  "isEventRelevant ex_Date_parse (ex_component [''cal1''] True) ex_event_new \<and>
   \<not> isEventRelevant ex_Date_parse (ex_component [''cal1''] True) ex_event_edited \<and>
   isEventRelevant ex_Date_parse (ex_component [''cal1''] False) ex_event_edited"
  using isEventRelevant_threshold [of "ex_component [''cal1''] True" ex_Date_parse ex_event_new]
    isEventRelevant_threshold [of "ex_component [''cal1''] True" ex_Date_parse ex_event_edited]
    isEventRelevant_threshold [of "ex_component [''cal1''] False" ex_Date_parse ex_event_edited]
  by (simp add: ex_Date_parse_def ex_event_new_def ex_event_edited_def ex_component_def)

section \<open>Effects only append to the trace\<close>

lemma growsI: "trace w' = trace w @ new \<Longrightarrow> list_all P new \<Longrightarrow> grows P w w'"
  by (simp add: grows_def new_effects_def)

lemma growsD: "grows P w w' \<Longrightarrow> \<exists>new. trace w' = trace w @ new \<and> list_all P new"
  unfolding grows_def new_effects_def by (metis append_take_drop_id)

lemma grows_refl: "grows P w w"
  by (simp add: grows_def new_effects_def)

lemma grows_trans: "grows P w w1 \<Longrightarrow> grows P w1 w2 \<Longrightarrow> grows P w w2"
  by (auto dest!: growsD intro!: growsI)

lemma grows_db_set: "P (DbSet k v) \<Longrightarrow> grows P w (db_set k v w)"
  by (rule growsI [where new = "[DbSet k v]"]) (simp_all add: db_set_def)

lemma grows_console_log: "P (Log msg) \<Longrightarrow> grows P w (console_log msg w)"
  by (rule growsI [where new = "[Log msg]"]) (simp_all add: console_log_def)

lemma grows_emit: "P (Emit e m) \<Longrightarrow> grows P w (emit e m w)"
  by (rule growsI [where new = "[Emit e m]"]) (simp_all add: emit_def)

lemma grows_fullSync: "P (FullSync c) \<Longrightarrow> grows P w (snd (googleCalendar_fullSync c w))"
  by (rule growsI [where new = "[FullSync c]"]) (simp_all add: googleCalendar_fullSync_def)

lemma grows_list: "P (ListEvents c s p) \<Longrightarrow> grows P w (snd (googleCalendar_list c s p w))"
  by (rule growsI [where new = "[ListEvents c s p]"]) (simp_all add: googleCalendar_list_def)

lemma forEach_emit_nc: "grows nc w (forEach_emit Date_parse evs w)"
proof (induction evs arbitrary: w)
  case Nil
  show ?case by (simp add: grows_refl)
next
  case (Cons e evs)
  show ?case
  proof (cases "status e = JStr ''cancelled''")
    case True
    have "grows nc w (console_log ''Event cancelled. Exiting.'' w)"
      by (rule grows_console_log) simp
    then show ?thesis using True Cons.IH grows_trans by fastforce
  next
    case False
    then have "grows nc w (emit e (generateMeta Date_parse e) w)"
      by (intro grows_emit) simp
    then show ?thesis using False Cons.IH grows_trans by fastforce
  qed
qed

lemma list_while_nc:
  "grows nc w (snd (list_while fuel Date_parse this c st nst npt w))"
proof (induction fuel arbitrary: w nst npt)
  case 0
  show ?case by (simp add: grows_refl)
next
  case (Suc fuel)
  show ?case
  proof (cases "truthy nst")
    case True
    then show ?thesis by (simp add: grows_refl)
  next
    case False
    obtain resp w1 where l: "googleCalendar_list c st npt w = (resp, w1)"
      by (cases "googleCalendar_list c st npt w")
    have g1: "grows nc w w1"
      using grows_list [of nc c st npt w] l by simp
    show ?thesis
    proof (cases "lr_status resp = 410")
      case True
      let ?w2 = "console_log ''Sync token invalid, resyncing'' w1"
      have "grows nc w1 ?w2" by (rule grows_console_log) simp
      moreover have "grows nc ?w2 (snd (googleCalendar_fullSync (this_calendarId this) ?w2))"
        by (rule grows_fullSync) simp
      ultimately have "grows nc w (snd (googleCalendar_fullSync (this_calendarId this) ?w2))"
        using g1 grows_trans by blast
      then show ?thesis using False True l by (simp add: split_def Let_def)
    next
      case ne: False
      define sd where "sd = (case lr_data resp of None \<Rightarrow> empty_sync_data | Some d \<Rightarrow> d)"
      define w2 where "w2 = forEach_emit Date_parse
         (filter (isEventRelevant Date_parse this) (case items sd of None \<Rightarrow> [] | Some xs \<Rightarrow> xs)) w1"
      have "grows nc w1 w2" unfolding w2_def by (rule forEach_emit_nc)
      with g1 have "grows nc w w2" by (rule grows_trans)
      moreover have "grows nc w2 (snd (list_while fuel Date_parse this c st (nextSyncToken sd) (nextPageToken sd) w2))"
        by (rule Suc.IH)
      ultimately have "grows nc w (snd (list_while fuel Date_parse this c st (nextSyncToken sd) (nextPageToken sd) w2))"
        by (rule grows_trans)
      then show ?thesis using False ne l by (simp add: Let_def sd_def w2_def)
    qed
  qed
qed

lemma fetch_loop_nc: "grows nc w (snd (fetch_loop fuel Date_parse this cs w))"
proof (induction cs arbitrary: w)
  case Nil
  show ?case by (simp add: grows_refl)
next
  case (Cons c cs)
  obtain r w1 where l: "list_while fuel Date_parse this c (db_get w (c @ ''.nextSyncToken'')) JNull JNull w = (r, w1)"
    by (cases "list_while fuel Date_parse this c (db_get w (c @ ''.nextSyncToken'')) JNull JNull w")
  have g1: "grows nc w w1" using list_while_nc [of w fuel Date_parse this c "db_get w (c @ ''.nextSyncToken'')" JNull JNull] l by simp
  show ?case
  proof (cases r)
    case None
    with l g1 show ?thesis by simp
  next
    case (Some tok)
    have "grows nc w1 (db_set (c @ ''.nextSyncToken'') tok w1)" by (rule grows_db_set) simp
    with g1 have "grows nc w (db_set (c @ ''.nextSyncToken'') tok w1)" by (rule grows_trans)
    then have "grows nc w (snd (fetch_loop fuel Date_parse this cs (db_set (c @ ''.nextSyncToken'') tok w1)))"
      using Cons.IH grows_trans by blast
    with l Some show ?thesis by simp
  qed
qed

section \<open>The pagination loop\<close>

lemma list_resps_forEach_emit [simp]: "list_resps (forEach_emit Date_parse evs w) = list_resps w"
  by (induction evs arbitrary: w) (simp_all add: console_log_def emit_def)

lemma db_forEach_emit [simp]: "db (forEach_emit Date_parse evs w) = db w"
  by (induction evs arbitrary: w) (simp_all add: console_log_def emit_def)

lemma list_while_truthy:
  "truthy nst \<Longrightarrow> list_while fuel Date_parse this c st nst npt w = (Some nst, w)"
  by (cases fuel) simp_all

lemma list_while_step:
  assumes "\<not> truthy nst" "lr_status (list_resps w 0) \<noteq> 410"
  shows "list_while (Suc fuel) Date_parse this c st nst npt w =
         list_while fuel Date_parse this c st
           (nextSyncToken (default_data (list_resps w 0)))
           (nextPageToken (default_data (list_resps w 0)))
           (page_world Date_parse this c st npt w)"
  using assms by (simp add: Let_def googleCalendar_list_def page_world_def default_data_def)

lemma list_while_410:
  assumes "\<not> truthy nst" "lr_status (list_resps w 0) = 410"
  shows "fst (list_while (Suc fuel) Date_parse this c st nst npt w) \<noteq> None"
  using assms by (simp add: Let_def googleCalendar_list_def split_def)

lemma list_while_invalidated:
  assumes "\<not> truthy nst" "lr_status (list_resps w 0) = 410"
  shows "list_while (Suc fuel) Date_parse this c st nst npt w =
     (Some (fullSync_resps w 0),
      w\<lparr>list_resps := (\<lambda>n. list_resps w (Suc n)),
        trace := trace w @ [ListEvents c st npt, Log ''Sync token invalid, resyncing'',
                            FullSync (this_calendarId this)],
        fullSync_resps := (\<lambda>n. fullSync_resps w (Suc n))\<rparr>)"
  using assms
  by (simp add: Let_def googleCalendar_list_def console_log_def googleCalendar_fullSync_def)

lemma list_while_final_page:
  assumes "\<not> truthy nst" "lr_status (list_resps w 0) \<noteq> 410"
      and "truthy (nextSyncToken (default_data (list_resps w 0)))"
  shows "list_while (Suc fuel) Date_parse this c st nst npt w =
         (Some (nextSyncToken (default_data (list_resps w 0))), page_world Date_parse this c st npt w)"
  by (simp add: list_while_step [OF assms(1,2)] list_while_truthy [OF assms(3)] del: list_while.simps)

lemma list_resps_page_world [simp]:
  "list_resps (page_world Date_parse this c st npt w) = (\<lambda>n. list_resps w (Suc n))"
  by (simp add: page_world_def googleCalendar_list_def)

lemma trace_page_world:
  "\<exists>mid. trace (page_world Date_parse this c st npt w) = trace w @ ListEvents c st npt # mid"
proof -
  let ?w1 = "snd (googleCalendar_list c st npt w)"
  have "grows nc ?w1 (page_world Date_parse this c st npt w)"
    unfolding page_world_def by (rule forEach_emit_nc)
  then obtain new where "trace (page_world Date_parse this c st npt w) = trace ?w1 @ new"
    by (auto dest: growsD)
  then show ?thesis by (simp add: googleCalendar_list_def)
qed

lemma list_while_terminates:
  "stops_loop (list_resps w k) \<Longrightarrow> k < fuel \<Longrightarrow>
   fst (list_while fuel Date_parse this c st nst npt w) \<noteq> None"
proof (induction k arbitrary: fuel w nst npt)
  case 0
  then obtain f where f: "fuel = Suc f" by (cases fuel) auto
  show ?case
  proof (cases "truthy nst")
    case True
    then show ?thesis by (simp add: list_while_truthy)
  next
    case nst: False
    show ?thesis
    proof (cases "lr_status (list_resps w 0) = 410")
      case True
      with nst show ?thesis unfolding f by (rule list_while_410)
    next
      case False
      with 0 have "truthy (nextSyncToken (default_data (list_resps w 0)))"
        by (simp add: stops_loop_def)
      then show ?thesis
        unfolding f by (simp add: list_while_step [OF nst False] list_while_truthy del: list_while.simps)
    qed
  qed
next
  case (Suc k)
  then obtain f where f: "fuel = Suc f" and kf: "k < f" by (cases fuel) auto
  show ?case
  proof (cases "truthy nst")
    case True
    then show ?thesis by (simp add: list_while_truthy)
  next
    case nst: False
    show ?thesis
    proof (cases "lr_status (list_resps w 0) = 410")
      case True
      with nst show ?thesis unfolding f by (rule list_while_410)
    next
      case False
      have "stops_loop (list_resps (page_world Date_parse this c st npt w) k)"
        using Suc.prems(1) by simp
      from Suc.IH [OF this kf] show ?thesis
        unfolding f by (simp add: list_while_step [OF nst False] del: list_while.simps)
    qed
  qed
qed

lemma list_while_runs_on:
  "\<forall>k < fuel. \<not> stops_loop (list_resps w k) \<Longrightarrow> \<not> truthy nst \<Longrightarrow>
   fst (list_while fuel Date_parse this c st nst npt w) = None"
proof (induction fuel arbitrary: w nst npt)
  case 0
  then show ?case by simp
next
  case (Suc fuel)
  from Suc.prems(1) have s0: "\<not> stops_loop (list_resps w 0)" by simp
  then have ne: "lr_status (list_resps w 0) \<noteq> 410"
    and nt: "\<not> truthy (nextSyncToken (default_data (list_resps w 0)))"
    by (simp_all add: stops_loop_def)
  have "\<forall>k < fuel. \<not> stops_loop (list_resps (page_world Date_parse this c st npt w) k)"
    using Suc.prems(1) by simp
  from Suc.IH [OF this nt] show ?case
    by (simp add: list_while_step [OF Suc.prems(2) ne] del: list_while.simps)
qed

lemma list_while_first_request:
  assumes "\<not> truthy nst"
  shows "\<exists>rest. trace (snd (list_while (Suc fuel) Date_parse this c st nst npt w)) =
           trace w @ ListEvents c st npt # rest"
proof -
  let ?w1 = "snd (googleCalendar_list c st npt w)"
  have t1: "trace ?w1 = trace w @ [ListEvents c st npt]" by (simp add: googleCalendar_list_def)
  show ?thesis
  proof (cases "lr_status (list_resps w 0) = 410")
    case True
    with assms show ?thesis
      by (simp add: Let_def googleCalendar_list_def split_def console_log_def googleCalendar_fullSync_def)
  next
    case False
    obtain mid where m: "trace (page_world Date_parse this c st npt w) = trace w @ ListEvents c st npt # mid"
      using trace_page_world by blast
    have "grows nc (page_world Date_parse this c st npt w)
            (snd (list_while fuel Date_parse this c st
               (nextSyncToken (default_data (list_resps w 0)))
               (nextPageToken (default_data (list_resps w 0)))
               (page_world Date_parse this c st npt w)))"
      by (rule list_while_nc)
    then obtain new where "trace (snd (list_while fuel Date_parse this c st
               (nextSyncToken (default_data (list_resps w 0)))
               (nextPageToken (default_data (list_resps w 0)))
               (page_world Date_parse this c st npt w))) = trace (page_world Date_parse this c st npt w) @ new"
      by (auto dest: growsD)
    with m show ?thesis by (simp add: list_while_step [OF assms False] del: list_while.simps)
  qed
qed

lemma forEach_emit_trace:
  "forEach_emit Date_parse evs w =
   w\<lparr>trace := trace w @
       concat (map (\<lambda>event. if status event = JStr ''cancelled''
                            then [Log ''Event cancelled. Exiting.'']
                            else [Emit event (generateMeta Date_parse event)]) evs)\<rparr>"
  by (induction evs arbitrary: w) (simp_all add: console_log_def emit_def)

lemma page_world_effects:
  "page_world Date_parse this c st npt w =
   w\<lparr>trace := trace w @ ListEvents c st npt # page_effects Date_parse this (list_resps w 0),
     list_resps := (\<lambda>n. list_resps w (Suc n))\<rparr>"
  by (simp add: page_world_def forEach_emit_trace googleCalendar_list_def page_effects_def)

lemma list_while_cycle:
  assumes "stops_loop (list_resps w k)"
      and "\<forall>i<k. \<not> stops_loop (list_resps w i)"
      and "k < fuel" "\<not> truthy nst"
  shows "list_while fuel Date_parse this c st nst npt w =
     (Some (cycle_token w k),
      w\<lparr>trace := trace w @ cycle_effects Date_parse this c st npt (map (list_resps w) [0..<Suc k]),
        fullSync_resps :=
          (if lr_status (list_resps w k) = 410 then (\<lambda>n. fullSync_resps w (Suc n))
           else fullSync_resps w),
        list_resps := (\<lambda>n. list_resps w (n + Suc k))\<rparr>)"
  using assms
proof (induction k arbitrary: fuel w nst npt)
  case 0
  then obtain f where f: "fuel = Suc f" by (cases fuel) auto
  show ?case
  proof (cases "lr_status (list_resps w 0) = 410")
    case True
    show ?thesis unfolding f
      by (simp add: list_while_invalidated [OF "0.prems"(4) True] cycle_token_def True
          this_calendarId_def del: list_while.simps)
  next
    case False
    with "0.prems"(1) have t: "truthy (nextSyncToken (default_data (list_resps w 0)))"
      by (simp add: stops_loop_def)
    show ?thesis unfolding f
      by (simp add: list_while_final_page [OF "0.prems"(4) False t] cycle_token_def False
          page_world_effects del: list_while.simps)
  qed
next
  case (Suc k)
  then obtain f where f: "fuel = Suc f" and kf: "k < f" by (cases fuel) auto
  from Suc.prems(2) have n0: "\<not> stops_loop (list_resps w 0)" by simp
  then have ne: "lr_status (list_resps w 0) \<noteq> 410"
    and nt: "\<not> truthy (nextSyncToken (default_data (list_resps w 0)))"
    by (simp_all add: stops_loop_def)
  let ?w2 = "page_world Date_parse this c st npt w"
  have r2: "list_resps ?w2 = (\<lambda>n. list_resps w (Suc n))" by simp
  have s2: "stops_loop (list_resps ?w2 k)" using Suc.prems(1) by simp
  have b2: "\<forall>i<k. \<not> stops_loop (list_resps ?w2 i)" using Suc.prems(2) by simp
  have m: "map (list_resps w) [0..<Suc (Suc k)] =
           list_resps w 0 # map (list_resps ?w2) [0..<Suc k]"
    unfolding r2 by (rule map_upt_Suc)
  have tk: "cycle_token ?w2 k = cycle_token w (Suc k)"
    by (simp add: cycle_token_def page_world_effects)
  show ?case
    unfolding f list_while_step [OF Suc.prems(4) ne] Suc.IH [OF s2 b2 kf nt] m tk
    by (simp add: page_world_effects ne)
qed

text \<open>
  Claim C10. The pagination loop of a calendar ends when some list response to come has
  status 410 or a truthy \<^verbatim>\<open>nextSyncToken\<close>, and never ends when none has. A response
  with neither status 410 nor a truthy \<^verbatim>\<open>nextSyncToken\<close> (with or without a
  \<^verbatim>\<open>nextPageToken\<close>) does not stop the loop: a further list request follows, with the
  page token of that response.
\<close>

theorem list_while_termination:
  "((\<exists>k. stops_loop (list_resps w k)) \<longrightarrow>
      (\<exists>fuel tok w'. list_while fuel Date_parse this c st JNull JNull w = (Some tok, w'))) \<and>
   ((\<forall>k. \<not> stops_loop (list_resps w k)) \<longrightarrow>
      (\<forall>fuel. fst (list_while fuel Date_parse this c st JNull JNull w) = None)) \<and>
   (\<not> stops_loop (list_resps w 0) \<longrightarrow>
      (\<forall>fuel npt. \<exists>mid rest.
         trace (snd (list_while (Suc (Suc fuel)) Date_parse this c st JNull npt w)) =
           trace w @ ListEvents c st npt # mid @
             ListEvents c st (nextPageToken (default_data (list_resps w 0))) # rest))"
proof (intro conjI impI allI)
  assume "\<exists>k. stops_loop (list_resps w k)"
  then obtain k where "stops_loop (list_resps w k)" ..
  then have "fst (list_while (Suc k) Date_parse this c st JNull JNull w) \<noteq> None"
    by (rule list_while_terminates) simp
  then show "\<exists>fuel tok w'. list_while fuel Date_parse this c st JNull JNull w = (Some tok, w')"
    by (metis not_None_eq prod.collapse)
next
  fix fuel
  assume "\<forall>k. \<not> stops_loop (list_resps w k)"
  then show "fst (list_while fuel Date_parse this c st JNull JNull w) = None"
    by (intro list_while_runs_on) simp_all
next
  fix fuel npt
  assume s0: "\<not> stops_loop (list_resps w 0)"
  then have ne: "lr_status (list_resps w 0) \<noteq> 410"
    and nt: "\<not> truthy (nextSyncToken (default_data (list_resps w 0)))"
    by (simp_all add: stops_loop_def)
  let ?sd = "default_data (list_resps w 0)"
  let ?w2 = "page_world Date_parse this c st npt w"
  obtain mid where m: "trace ?w2 = trace w @ ListEvents c st npt # mid"
    using trace_page_world by blast
  obtain rest where r: "trace (snd (list_while (Suc fuel) Date_parse this c st (nextSyncToken ?sd) (nextPageToken ?sd) ?w2))
      = trace ?w2 @ ListEvents c st (nextPageToken ?sd) # rest"
    using list_while_first_request [OF nt] by blast
  have "list_while (Suc (Suc fuel)) Date_parse this c st JNull npt w =
        list_while (Suc fuel) Date_parse this c st (nextSyncToken ?sd) (nextPageToken ?sd) ?w2"
    using ne by (intro list_while_step) simp_all
  with m r show "\<exists>mid rest.
         trace (snd (list_while (Suc (Suc fuel)) Date_parse this c st JNull npt w)) =
           trace w @ ListEvents c st npt # mid @ ListEvents c st (nextPageToken ?sd) # rest"
    by auto
qed

section \<open>Teardown\<close>

lemma key_tail:
  "take 3 (rev (a @ ''.nextSyncToken'')) = ''nek''"
  "take 3 (rev (a @ ''.channelId'')) = ''dIl''"
  "take 3 (rev (a @ ''.resourceId'')) = ''dIe''"
  "take 3 (rev (a @ ''.expiration'')) = ''noi''"
  by simp_all

lemma resource_keys_disjoint:
  assumes "a \<noteq> c" "k \<in> set (resource_keys a)"
  shows "k \<notin> set (resource_keys c)"
proof
  assume kc: "k \<in> set (resource_keys c)"
  from assms(2) consider "k = a @ ''.nextSyncToken''" | "k = a @ ''.channelId''"
    | "k = a @ ''.resourceId''" | "k = a @ ''.expiration''"
    by (auto simp: resource_keys_def)
  then show False
  proof cases
    case 1
    then have "take 3 (rev k) = ''nek''" by (simp only: key_tail)
    with kc have "k = c @ ''.nextSyncToken''"
      unfolding resource_keys_def by (auto simp del: rev_append simp: key_tail)
    with 1 assms(1) show False by simp
  next
    case 2
    then have "take 3 (rev k) = ''dIl''" by (simp only: key_tail)
    with kc have "k = c @ ''.channelId''"
      unfolding resource_keys_def by (auto simp del: rev_append simp: key_tail)
    with 2 assms(1) show False by simp
  next
    case 3
    then have "take 3 (rev k) = ''dIe''" by (simp only: key_tail)
    with kc have "k = c @ ''.resourceId''"
      unfolding resource_keys_def by (auto simp del: rev_append simp: key_tail)
    with 3 assms(1) show False by simp
  next
    case 4
    then have "take 3 (rev k) = ''noi''" by (simp only: key_tail)
    with kc have "k = c @ ''.expiration''"
      unfolding resource_keys_def by (auto simp del: rev_append simp: key_tail)
    with 4 assms(1) show False by simp
  qed
qed

lemma stop_body_skip:
  "\<not> has_channel w c \<Longrightarrow> stopWatchRequest_body c w = w"
  by (auto simp: stopWatchRequest_body_def has_channel_def Let_def)

lemma stop_body_204:
  assumes "has_channel w c" "stop_resps w 0 = 204"
  shows "stopWatchRequest_body c w =
     w\<lparr>db := (db w)(c @ ''.nextSyncToken'' \<mapsto> JNull, c @ ''.channelId'' \<mapsto> JNull,
                     c @ ''.resourceId'' \<mapsto> JNull, c @ ''.expiration'' \<mapsto> JNull),
       trace := trace w @
         [Stop (db_get w (c @ ''.channelId'')) (db_get w (c @ ''.resourceId'')),
          Log ''webhook deactivated'',
          DbSet (c @ ''.nextSyncToken'') JNull, DbSet (c @ ''.channelId'') JNull,
          DbSet (c @ ''.resourceId'') JNull, DbSet (c @ ''.expiration'') JNull],
       stop_resps := (\<lambda>n. stop_resps w (Suc n))\<rparr>"
  using assms
  by (simp add: stopWatchRequest_body_def has_channel_def Let_def googleCalendar_stop_def
      console_log_def db_set_def)

lemma stop_body_other:
  assumes "has_channel w c" "stop_resps w 0 \<noteq> 204"
  shows "stopWatchRequest_body c w =
     w\<lparr>trace := trace w @
         [Stop (db_get w (c @ ''.channelId'')) (db_get w (c @ ''.resourceId'')),
          Log ''There was a problem deactivating the webhook''],
       stop_resps := (\<lambda>n. stop_resps w (Suc n))\<rparr>"
  using assms
  by (simp add: stopWatchRequest_body_def has_channel_def Let_def googleCalendar_stop_def
      console_log_def)

lemma stop_body_frame:
  assumes "k \<notin> set (resource_keys a)"
  shows "db (stopWatchRequest_body a w) k = db w k"
proof -
  from assms have ne: "k \<noteq> a @ ''.nextSyncToken''" "k \<noteq> a @ ''.channelId''"
    "k \<noteq> a @ ''.resourceId''" "k \<noteq> a @ ''.expiration''"
    unfolding resource_keys_def by (simp_all del: append_eq_append_conv)
  show ?thesis
  proof (cases "has_channel w a")
    case False
    then show ?thesis by (simp add: stop_body_skip)
  next
    case True
    show ?thesis
    proof (cases "stop_resps w 0 = 204")
      case s: True
      show ?thesis unfolding stop_body_204 [OF True s] using ne by simp
    next
      case s: False
      show ?thesis unfolding stop_body_other [OF True s] by simp
    qed
  qed
qed

lemma stop_body_stop_resps:
  "stop_resps (stopWatchRequest_body a w) =
     (if has_channel w a then (\<lambda>n. stop_resps w (Suc n)) else stop_resps w)"
  by (cases "has_channel w a"; cases "stop_resps w 0 = 204")
     (simp_all add: stop_body_skip stop_body_204 stop_body_other)

lemma stop_body_has_channel:
  "a \<noteq> c \<Longrightarrow> has_channel (stopWatchRequest_body a w) c = has_channel w c"
proof -
  assume ac: "a \<noteq> c"
  have "c @ ''.channelId'' \<in> set (resource_keys c)" "c @ ''.resourceId'' \<in> set (resource_keys c)"
    by (simp_all add: resource_keys_def)
  with ac have "c @ ''.channelId'' \<notin> set (resource_keys a)" "c @ ''.resourceId'' \<notin> set (resource_keys a)"
    using resource_keys_disjoint by blast+
  then show ?thesis
    by (simp add: has_channel_def db_get_def stop_body_frame)
qed

lemma stop_loop_frame:
  "c \<notin> set cs \<Longrightarrow> k \<in> set (resource_keys c) \<Longrightarrow> db (stopWatchRequest_loop cs w) k = db w k"
proof (induction cs arbitrary: w)
  case Nil
  show ?case by simp
next
  case (Cons a cs)
  from Cons.prems have "a \<noteq> c" "c \<notin> set cs" by auto
  with Cons.prems(2) have "k \<notin> set (resource_keys a)"
    using resource_keys_disjoint by blast
  then have "db (stopWatchRequest_body a w) k = db w k" by (rule stop_body_frame)
  with Cons.IH [OF \<open>c \<notin> set cs\<close> Cons.prems(2)] show ?case by simp
qed

lemma stop_loop_at:
  assumes "distinct (pre @ c # post)" "has_channel w c"
  shows "(stop_resps w (length (filter (has_channel w) pre)) = 204 \<longrightarrow>
            (\<forall>k \<in> set (resource_keys c). db (stopWatchRequest_loop (pre @ c # post) w) k = Some JNull)) \<and>
         (stop_resps w (length (filter (has_channel w) pre)) \<noteq> 204 \<longrightarrow>
            (\<forall>k \<in> set (resource_keys c). db (stopWatchRequest_loop (pre @ c # post) w) k = db w k))"
  using assms
proof (induction pre arbitrary: w)
  case Nil
  then have c: "c \<notin> set post" by simp
  show ?case
  proof (cases "stop_resps w 0 = 204")
    case True
    have "\<forall>k \<in> set (resource_keys c). db (stopWatchRequest_body c w) k = Some JNull"
      by (simp add: stop_body_204 [OF Nil.prems(2) True] resource_keys_def)
    with True show ?thesis by (simp add: stop_loop_frame [OF c])
  next
    case False
    have "db (stopWatchRequest_body c w) = db w"
      by (simp add: stop_body_other [OF Nil.prems(2) False])
    with False show ?thesis by (simp add: stop_loop_frame [OF c])
  qed
next
  case (Cons a pre)
  let ?w1 = "stopWatchRequest_body a w"
  from Cons.prems(1) have ac: "a \<noteq> c" and d: "distinct (pre @ c # post)" and ap: "a \<notin> set pre"
    by auto
  have hc: "has_channel ?w1 c" using Cons.prems(2) ac by (simp add: stop_body_has_channel)
  have "has_channel ?w1 x = has_channel w x" if "x \<in> set pre" for x
  proof -
    from that ap have "a \<noteq> x" by auto
    then show ?thesis by (rule stop_body_has_channel)
  qed
  then have fl: "filter (has_channel ?w1) pre = filter (has_channel w) pre"
    by (intro filter_cong) simp_all
  have sr: "stop_resps ?w1 (length (filter (has_channel w) pre)) =
            stop_resps w (length (filter (has_channel w) (a # pre)))"
    by (simp add: stop_body_stop_resps)
  have fr: "\<forall>k \<in> set (resource_keys c). db ?w1 k = db w k"
    using ac resource_keys_disjoint stop_body_frame by blast
  from Cons.IH [OF d hc] show ?case
    unfolding fl sr using fr by simp
qed

lemma new_effects_app: "trace w' = trace w @ new \<Longrightarrow> new_effects w w' = new"
  by (simp add: new_effects_def)

lemma stop_body_trace:
  "\<exists>new. trace (stopWatchRequest_body a w) = trace w @ new \<and>
     filter is_stop new =
       (if has_channel w a
        then [Stop (db_get w (a @ ''.channelId'')) (db_get w (a @ ''.resourceId''))] else [])"
  by (cases "has_channel w a"; cases "stop_resps w 0 = 204")
     (simp_all add: stop_body_skip stop_body_204 stop_body_other)

lemma stop_body_db_get:
  assumes "a \<noteq> x" "k \<in> set (resource_keys x)"
  shows "db_get (stopWatchRequest_body a w) k = db_get w k"
proof -
  from assms have "k \<notin> set (resource_keys a)" using resource_keys_disjoint by blast
  then show ?thesis by (simp add: db_get_def stop_body_frame)
qed

lemma stop_call_body: "a \<noteq> x \<Longrightarrow> stop_call (stopWatchRequest_body a w) x = stop_call w x"
  by (simp add: stop_call_def stop_body_db_get resource_keys_def)

lemma stop_loop_stops:
  "distinct cs \<Longrightarrow>
   \<exists>new. trace (stopWatchRequest_loop cs w) = trace w @ new \<and>
     filter is_stop new = map (stop_call w) (filter (has_channel w) cs)"
proof (induction cs arbitrary: w)
  case Nil
  show ?case by simp
next
  case (Cons a cs)
  let ?w1 = "stopWatchRequest_body a w"
  from Cons.prems have d: "distinct cs" and a: "a \<notin> set cs" by auto
  obtain n1 where n1: "trace ?w1 = trace w @ n1"
    "filter is_stop n1 = (if has_channel w a then [stop_call w a] else [])"
    using stop_body_trace [of a w] unfolding stop_call_def by blast
  obtain n2 where n2: "trace (stopWatchRequest_loop cs ?w1) = trace ?w1 @ n2"
    "filter is_stop n2 = map (stop_call ?w1) (filter (has_channel ?w1) cs)"
    using Cons.IH [OF d] by blast
  have ne: "a \<noteq> x" if "x \<in> set cs" for x using that a by auto
  have "filter (has_channel ?w1) cs = filter (has_channel w) cs"
    by (intro filter_cong) (simp_all add: ne stop_body_has_channel)
  moreover have "map (stop_call ?w1) (filter (has_channel w) cs) = map (stop_call w) (filter (has_channel w) cs)"
    by (intro map_cong) (simp_all add: ne stop_call_body)
  ultimately have "filter is_stop n2 = map (stop_call w) (filter (has_channel w) cs)"
    using n2(2) by simp
  with n1 n2(1) have "trace (stopWatchRequest_loop (a # cs) w) = trace w @ (n1 @ n2) \<and>
     filter is_stop (n1 @ n2) = map (stop_call w) (filter (has_channel w) (a # cs))"
    by simp
  then show ?case by blast
qed

text \<open>
  Claim C7. Teardown over distinct calendar ids. For a calendar \<open>c\<close> with a persisted
  channel, the stop call for that channel is the \<open>j\<close>-th stop call of the loop, where
  \<open>j\<close> counts the calendars with a channel before \<open>c\<close>; the four persisted fields of
  \<open>c\<close> are all \<^verbatim>\<open>null\<close> afterwards exactly when that call answered 204, and on any
  other status they are what they were. The loop goes on to the remaining calendars in both
  cases: the statement holds at every position.
\<close>

theorem stopWatchRequest_clears_iff_204:
  assumes "calendarIds this = pre @ c # post"
      and "distinct (calendarIds this)"
      and "has_channel w c"
  shows "filter is_stop (new_effects w (stopWatchRequest this w)) ! length (filter (has_channel w) pre)
           = stop_call w c \<and>
         ((map (db (stopWatchRequest this w)) (resource_keys c) =
             [Some JNull, Some JNull, Some JNull, Some JNull])
            = (stop_resps w (length (filter (has_channel w) pre)) = 204)) \<and>
         (stop_resps w (length (filter (has_channel w) pre)) \<noteq> 204 \<longrightarrow>
            map (db (stopWatchRequest this w)) (resource_keys c) = map (db w) (resource_keys c))"
proof -
  let ?w' = "stopWatchRequest this w"
  let ?j = "length (filter (has_channel w) pre)"
  have w': "?w' = stopWatchRequest_loop (pre @ c # post) w"
    by (simp add: stopWatchRequest_def assms(1))
  from assms(1,2) have d: "distinct (pre @ c # post)" by simp
  obtain new where new: "trace ?w' = trace w @ new"
    "filter is_stop new = map (stop_call w) (filter (has_channel w) (pre @ c # post))"
    using stop_loop_stops [OF d] unfolding w' by blast
  have "filter is_stop new ! ?j = stop_call w c"
    unfolding new(2) using assms(3) by (simp add: nth_append)
  then have stop: "filter is_stop (new_effects w ?w') ! ?j = stop_call w c"
    using new(1) by (simp add: new_effects_app)
  note at = stop_loop_at [OF d assms(3), folded w']
  have cleared: "map (db ?w') (resource_keys c) = [Some JNull, Some JNull, Some JNull, Some JNull]"
    if "stop_resps w ?j = 204"
    using at that by (simp add: resource_keys_def)
  have kept: "map (db ?w') (resource_keys c) = map (db w) (resource_keys c)"
    if "stop_resps w ?j \<noteq> 204"
    using at that by (simp add: resource_keys_def)
  have "db w (c @ ''.channelId'') \<noteq> Some JNull"
    using assms(3) by (auto simp: has_channel_def db_get_def)
  then have "map (db w) (resource_keys c) \<noteq> [Some JNull, Some JNull, Some JNull, Some JNull]"
    by (simp add: resource_keys_def)
  with cleared kept stop show ?thesis by metis
qed

section \<open>The handler\<close>

lemma make_body_trace:
  "trace (makeWatchRequest_body this c w) = trace w @
     [Watch c (uuids w 0) (http_endpoint this), FullSync (JStr c),
      DbSet (c @ ''.nextSyncToken'') (fullSync_resps w 0),
      DbSet (c @ ''.channelId'') (wd_id (watch_resps w 0)),
      DbSet (c @ ''.resourceId'') (wd_resourceId (watch_resps w 0)),
      DbSet (c @ ''.expiration'') (wd_expiration (watch_resps w 0))]"
  by (simp add: makeWatchRequest_body_def uuid_def googleCalendar_watch_def
      googleCalendar_fullSync_def db_set_def)

lemma make_loop_nc: "grows nc w (makeWatchRequest_loop this cs w)"
proof (induction cs arbitrary: w)
  case Nil
  show ?case by (simp add: grows_refl)
next
  case (Cons c cs)
  have "grows nc w (makeWatchRequest_body this c w)"
    by (rule growsI [OF make_body_trace]) simp
  with Cons.IH show ?case using grows_trans by fastforce
qed

lemma stop_body_nc: "grows nc w (stopWatchRequest_body c w)"
proof (cases "has_channel w c")
  case False
  then show ?thesis by (simp add: stop_body_skip grows_refl)
next
  case True
  show ?thesis
  proof (cases "stop_resps w 0 = 204")
    case s: True
    show ?thesis unfolding stop_body_204 [OF True s]
      by (rule growsI [where new = "[Stop (db_get w (c @ ''.channelId'')) (db_get w (c @ ''.resourceId'')),
          Log ''webhook deactivated'',
          DbSet (c @ ''.nextSyncToken'') JNull, DbSet (c @ ''.channelId'') JNull,
          DbSet (c @ ''.resourceId'') JNull, DbSet (c @ ''.expiration'') JNull]"]) simp_all
  next
    case s: False
    show ?thesis unfolding stop_body_other [OF True s]
      by (rule growsI [where new = "[Stop (db_get w (c @ ''.channelId'')) (db_get w (c @ ''.resourceId'')),
          Log ''There was a problem deactivating the webhook'']"]) simp_all
  qed
qed

lemma stop_loop_nc: "grows nc w (stopWatchRequest_loop cs w)"
proof (induction cs arbitrary: w)
  case Nil
  show ?case by (simp add: grows_refl)
next
  case (Cons c cs)
  from stop_body_nc [of w c] Cons.IH show ?case using grows_trans by fastforce
qed

lemma run_nc: "grows nc w (snd (run fuel Date_parse this now event w))"
proof (cases "is_timer_tick event")
  case True
  have "grows nc w (stopWatchRequest this (makeWatchRequest this w))"
    unfolding stopWatchRequest_def makeWatchRequest_def
    using make_loop_nc stop_loop_nc grows_trans by blast
  with True show ?thesis by (simp add: run_def Let_def grows_refl)
next
  case False
  have "grows nc w (console_log msg w)" for msg by (rule grows_console_log) simp
  with False fetch_loop_nc [of w fuel Date_parse this "calendarIds this"] show ?thesis
    by (simp add: run_def Let_def)
qed

text \<open>
  Claim C4. Whatever the event, the props (so whatever \<^verbatim>\<open>newOnly\<close>), the world and the
  number of list requests made so far, an invocation of \<^verbatim>\<open>run\<close> only appends to the
  trace, and no event emitted by it has status \<^verbatim>\<open>cancelled\<close>.
\<close>

theorem run_never_emits_cancelled:
  "take (length (trace w)) (trace (snd (run fuel Date_parse this now event w))) = trace w \<and>
   (\<forall>e m. Emit e m \<in> set (new_effects w (snd (run fuel Date_parse this now event w))) \<longrightarrow>
          status e \<noteq> JStr ''cancelled'')"
proof -
  have "grows nc w (snd (run fuel Date_parse this now event w))" by (rule run_nc)
  then show ?thesis
    by (fastforce simp: grows_def list_all_iff)
qed


lemma fetch_loop_first_request:
  "\<exists>rest. trace (snd (fetch_loop (Suc fuel) Date_parse this (c # cs) w)) =
     trace w @ ListEvents c (db_get w (c @ ''.nextSyncToken'')) JNull # rest"
proof -
  let ?st = "db_get w (c @ ''.nextSyncToken'')"
  obtain r w1 where l: "list_while (Suc fuel) Date_parse this c ?st JNull JNull w = (r, w1)"
    by (cases "list_while (Suc fuel) Date_parse this c ?st JNull JNull w")
  obtain rest where r1: "trace w1 = trace w @ ListEvents c ?st JNull # rest"
    using list_while_first_request [of JNull fuel Date_parse this c ?st JNull w] l by auto
  show ?thesis
  proof (cases r)
    case None
    with l r1 show ?thesis by (simp del: list_while.simps)
  next
    case (Some tok)
    let ?w2 = "db_set (c @ ''.nextSyncToken'') tok w1"
    have "grows nc ?w2 (snd (fetch_loop (Suc fuel) Date_parse this cs ?w2))"
      by (rule fetch_loop_nc)
    then obtain new where "trace (snd (fetch_loop (Suc fuel) Date_parse this cs ?w2)) = trace ?w2 @ new"
      by (auto dest: growsD)
    with l r1 Some show ?thesis by (simp add: db_set_def del: list_while.simps)
  qed
qed

text \<open>
  Claim C8. For an inbound notification with a known channel id, \<^verbatim>\<open>run\<close> branches on the
  resource-state header: with \<^verbatim>\<open>exists\<close> it is the fetch loop over the configured
  calendars, which starts with a list request for the first calendar; with any other value
  (\<^verbatim>\<open>not_exists\<close>, \<^verbatim>\<open>sync\<close>, anything else, or no header) it returns after one
  console message, with no request, no emission and no write.
\<close>

theorem run_resource_state:
  assumes "\<not> is_timer_tick event"
      and "header event ''x-goog-channel-id'' \<in>
             set (map (\<lambda>calendarId. db_get w (calendarId @ ''.channelId'')) (calendarIds this))"
  shows "(header event ''x-goog-resource-state'' = JStr ''exists'' \<longrightarrow>
            run fuel Date_parse this now event w = fetch_loop fuel Date_parse this (calendarIds this) w \<and>
            (0 < fuel \<longrightarrow>
               (\<exists>rest. trace (snd (run fuel Date_parse this now event w)) =
                  trace w @ ListEvents (hd (calendarIds this))
                    (db_get w (hd (calendarIds this) @ ''.nextSyncToken'')) JNull # rest))) \<and>
         (header event ''x-goog-resource-state'' \<noteq> JStr ''exists'' \<longrightarrow>
            fst (run fuel Date_parse this now event w) \<and>
            new_effects w (snd (run fuel Date_parse this now event w)) =
              [Log (state_message (header event ''x-goog-resource-state''))] \<and>
            snd (run fuel Date_parse this now event w) =
              w\<lparr>trace := trace (snd (run fuel Date_parse this now event w))\<rparr>)"
proof (intro conjI impI)
  assume ex: "header event ''x-goog-resource-state'' = JStr ''exists''"
  with assms show eq: "run fuel Date_parse this now event w = fetch_loop fuel Date_parse this (calendarIds this) w"
    by (simp add: run_def Let_def)
  assume "0 < fuel"
  then obtain f where f: "fuel = Suc f" by (cases fuel) auto
  from assms(2) obtain c cs where cs: "calendarIds this = c # cs"
    by (cases "calendarIds this") auto
  show "\<exists>rest. trace (snd (run fuel Date_parse this now event w)) =
          trace w @ ListEvents (hd (calendarIds this))
            (db_get w (hd (calendarIds this) @ ''.nextSyncToken'')) JNull # rest"
    using fetch_loop_first_request [of f Date_parse this c cs w]
    by (simp only: eq [unfolded f cs] f cs list.sel)
next
  assume ne: "header event ''x-goog-resource-state'' \<noteq> JStr ''exists''"
  with assms show "fst (run fuel Date_parse this now event w)"
    by (simp add: run_def Let_def)
  from ne assms show "new_effects w (snd (run fuel Date_parse this now event w)) =
              [Log (state_message (header event ''x-goog-resource-state''))]"
    by (simp add: run_def Let_def console_log_def new_effects_def state_message_def)
  from ne assms show "snd (run fuel Date_parse this now event w) =
              w\<lparr>trace := trace (snd (run fuel Date_parse this now event w))\<rparr>"
    by (simp add: run_def Let_def console_log_def)
qed

lemma db_list_while [simp]: "db (snd (list_while fuel Date_parse this c st nst npt w)) = db w"
proof (induction fuel arbitrary: w nst npt)
  case 0
  show ?case by simp
next
  case (Suc fuel)
  show ?case
  proof (cases "truthy nst")
    case True
    then show ?thesis by simp
  next
    case nst: False
    show ?thesis
    proof (cases "lr_status (list_resps w 0) = 410")
      case True
      with nst show ?thesis
        by (simp add: Let_def split_def googleCalendar_list_def console_log_def googleCalendar_fullSync_def)
    next
      case False
      have "db (page_world Date_parse this c st npt w) = db w"
        by (simp add: page_world_def googleCalendar_list_def)
      with Suc.IH show ?thesis
        by (simp add: list_while_step [OF nst False] del: list_while.simps)
    qed
  qed
qed

lemma run_fetch:
  assumes "\<not> is_timer_tick event"
      and "header event ''x-goog-channel-id'' \<in>
             set (map (\<lambda>calendarId. db_get w (calendarId @ ''.channelId'')) (calendarIds this))"
      and "header event ''x-goog-resource-state'' = JStr ''exists''"
  shows "run fuel Date_parse this now event w = fetch_loop fuel Date_parse this (calendarIds this) w"
  using assms by (simp add: run_def Let_def)

lemma list_while_mono:
  "list_while fuel Date_parse this c st nst npt w = (Some tok, w') \<Longrightarrow>
   list_while (fuel + k) Date_parse this c st nst npt w = (Some tok, w')"
proof (induction fuel arbitrary: nst npt w)
  case 0
  then have "truthy nst" by (auto split: if_splits)
  with 0 show ?case by (simp add: list_while_truthy del: list_while.simps)
next
  case (Suc fuel)
  show ?case
  proof (cases "truthy nst")
    case True
    with Suc.prems show ?thesis by (simp add: list_while_truthy del: list_while.simps)
  next
    case nst: False
    show ?thesis
    proof (cases "lr_status (list_resps w 0) = 410")
      case True
      from Suc.prems show ?thesis
        by (simp add: list_while_invalidated [OF nst True] del: list_while.simps)
    next
      case False
      from Suc.prems have "list_while fuel Date_parse this c st
           (nextSyncToken (default_data (list_resps w 0)))
           (nextPageToken (default_data (list_resps w 0)))
           (page_world Date_parse this c st npt w) = (Some tok, w')"
        by (simp add: list_while_step [OF nst False] del: list_while.simps)
      from Suc.IH [OF this] show ?thesis
        by (simp add: list_while_step [OF nst False] del: list_while.simps)
    qed
  qed
qed

lemma list_while_resps_shift:
  "\<exists>j. list_resps (snd (list_while fuel Date_parse this c st nst npt w)) =
        (\<lambda>n. list_resps w (n + j))"
proof (induction fuel arbitrary: nst npt w)
  case 0
  have "list_resps (snd (list_while 0 Date_parse this c st nst npt w)) = (\<lambda>n. list_resps w (n + 0))"
    by simp
  then show ?case by (rule exI)
next
  case (Suc fuel)
  show ?case
  proof (cases "truthy nst")
    case True
    then have "list_resps (snd (list_while (Suc fuel) Date_parse this c st nst npt w)) =
               (\<lambda>n. list_resps w (n + 0))"
      by simp
    then show ?thesis by (rule exI)
  next
    case nst: False
    show ?thesis
    proof (cases "lr_status (list_resps w 0) = 410")
      case True
      have "list_resps (snd (list_while (Suc fuel) Date_parse this c st nst npt w)) =
            (\<lambda>n. list_resps w (n + 1))"
        by (simp add: list_while_invalidated [OF nst True] del: list_while.simps)
      then show ?thesis by (rule exI)
    next
      case False
      let ?w2 = "page_world Date_parse this c st npt w"
      from Suc.IH [of "nextSyncToken (default_data (list_resps w 0))"
          "nextPageToken (default_data (list_resps w 0))" ?w2]
      obtain j where "list_resps (snd (list_while fuel Date_parse this c st
           (nextSyncToken (default_data (list_resps w 0)))
           (nextPageToken (default_data (list_resps w 0))) ?w2)) =
           (\<lambda>n. list_resps ?w2 (n + j))"
        by blast
      then have "list_resps (snd (list_while (Suc fuel) Date_parse this c st nst npt w)) =
            (\<lambda>n. list_resps w (n + Suc j))"
        by (simp add: list_while_step [OF nst False] del: list_while.simps)
      then show ?thesis by (rule exI)
    qed
  qed
qed

lemma fetch_loop_mono:
  "fetch_loop fuel Date_parse this cs w = (True, w') \<Longrightarrow>
   fetch_loop (fuel + k) Date_parse this cs w = (True, w')"
proof (induction cs arbitrary: w)
  case Nil
  then show ?case by simp
next
  case (Cons a cs)
  let ?st = "db_get w (a @ ''.nextSyncToken'')"
  obtain r w1 where l: "list_while fuel Date_parse this a ?st JNull JNull w = (r, w1)"
    by (cases "list_while fuel Date_parse this a ?st JNull JNull w")
  from Cons.prems l obtain tok where r: "r = Some tok"
    by (cases r) (simp_all del: list_while.simps)
  from Cons.prems l r
  have "fetch_loop fuel Date_parse this cs (db_set (a @ ''.nextSyncToken'') tok w1) = (True, w')"
    by (simp del: list_while.simps)
  from Cons.IH [OF this] list_while_mono [OF l [unfolded r], of k] show ?case
    by (simp del: list_while.simps)
qed

text \<open>
  When the remote side never stops sending responses that end a loop, the fetch loop runs to
  its end for every list of calendars.
\<close>

lemma fetch_loop_terminates:
  assumes "\<forall>n. \<exists>k\<ge>n. stops_loop (list_resps w k)"
  shows "\<exists>fuel w'. fetch_loop fuel Date_parse this cs w = (True, w')"
  using assms
proof (induction cs arbitrary: w)
  case Nil
  show ?case by simp
next
  case (Cons a cs)
  let ?st = "db_get w (a @ ''.nextSyncToken'')"
  from Cons.prems obtain k where "stops_loop (list_resps w k)" by blast
  then have "fst (list_while (Suc k) Date_parse this a ?st JNull JNull w) \<noteq> None"
    by (rule list_while_terminates) simp
  then obtain tok w1 where l: "list_while (Suc k) Date_parse this a ?st JNull JNull w = (Some tok, w1)"
    by (metis not_None_eq prod.collapse)
  let ?w2 = "db_set (a @ ''.nextSyncToken'') tok w1"
  obtain j where "list_resps w1 = (\<lambda>n. list_resps w (n + j))"
    using list_while_resps_shift [of "Suc k" Date_parse this a ?st JNull JNull w] l by auto
  then have sh: "list_resps ?w2 = (\<lambda>n. list_resps w (n + j))" by (simp add: db_set_def)
  have "\<forall>n. \<exists>k\<ge>n. stops_loop (list_resps ?w2 k)"
  proof
    fix n
    from Cons.prems obtain k' where k': "k' \<ge> n + j" "stops_loop (list_resps w k')" by blast
    then have "k' - j \<ge> n" "stops_loop (list_resps ?w2 (k' - j))" by (simp_all add: sh)
    then show "\<exists>k\<ge>n. stops_loop (list_resps ?w2 k)" by blast
  qed
  from Cons.IH [OF this] obtain fuel2 w' where
    f2: "fetch_loop fuel2 Date_parse this cs ?w2 = (True, w')"
    by blast
  have "list_while (Suc k + fuel2) Date_parse this a ?st JNull JNull w = (Some tok, w1)"
    using l by (rule list_while_mono)
  moreover have "fetch_loop (fuel2 + Suc k) Date_parse this cs ?w2 = (True, w')"
    using f2 by (rule fetch_loop_mono)
  ultimately have "fetch_loop (Suc k + fuel2) Date_parse this (a # cs) w = (True, w')"
    by (simp add: add.commute del: list_while.simps)
  then show ?case by blast
qed

lemma fetch_loop_frame:
  "c \<notin> set cs \<Longrightarrow>
   db (snd (fetch_loop fuel Date_parse this cs w)) (c @ ''.nextSyncToken'') = db w (c @ ''.nextSyncToken'')"
proof (induction cs arbitrary: w)
  case Nil
  show ?case by simp
next
  case (Cons a cs)
  let ?st = "db_get w (a @ ''.nextSyncToken'')"
  from Cons.prems have ac: "a \<noteq> c" and c: "c \<notin> set cs" by auto
  obtain r w1 where l: "list_while fuel Date_parse this a ?st JNull JNull w = (r, w1)"
    by (cases "list_while fuel Date_parse this a ?st JNull JNull w")
  have d1: "db w1 = db w" using db_list_while [of fuel Date_parse this a ?st JNull JNull w] l by simp
  show ?case
  proof (cases r)
    case None
    with l d1 show ?thesis by (simp del: list_while.simps)
  next
    case (Some tok)
    have "db (db_set (a @ ''.nextSyncToken'') tok w1) (c @ ''.nextSyncToken'') = db w (c @ ''.nextSyncToken'')"
      using ac d1 by (simp add: db_set_def)
    with Cons.IH [OF c] l Some show ?thesis by (simp del: list_while.simps)
  qed
qed

lemma fetch_loop_each:
  assumes "fetch_loop fuel Date_parse this cs w = (True, w')" "c \<in> set cs"
  shows "\<exists>pre st mid v post.
           trace w' = trace w @ pre @ ListEvents c st JNull # mid @
                        DbSet (c @ ''.nextSyncToken'') v # post \<and>
           (distinct cs \<longrightarrow> st = db_get w (c @ ''.nextSyncToken'') \<and>
                             db w' (c @ ''.nextSyncToken'') = Some v)"
  using assms
proof (induction cs arbitrary: w)
  case Nil
  then show ?case by simp
next
  case (Cons a cs)
  let ?st = "db_get w (a @ ''.nextSyncToken'')"
  obtain r w1 where l: "list_while fuel Date_parse this a ?st JNull JNull w = (r, w1)"
    by (cases "list_while fuel Date_parse this a ?st JNull JNull w")
  from Cons.prems(1) l obtain tok where r: "r = Some tok"
    by (cases r) (simp_all del: list_while.simps)
  let ?w2 = "db_set (a @ ''.nextSyncToken'') tok w1"
  from Cons.prems(1) l r have rest: "fetch_loop fuel Date_parse this cs ?w2 = (True, w')"
    by (simp del: list_while.simps)
  from l r obtain f where f: "fuel = Suc f"
    by (cases fuel) auto
  obtain rest1 where t1: "trace w1 = trace w @ ListEvents a ?st JNull # rest1"
    using list_while_first_request [of JNull f Date_parse this a ?st JNull w] l f by auto
  have d1: "db w1 = db w" using db_list_while [of fuel Date_parse this a ?st JNull JNull w] l by simp
  have t2: "trace ?w2 = trace w1 @ [DbSet (a @ ''.nextSyncToken'') tok]" by (simp add: db_set_def)
  have "grows nc ?w2 (snd (fetch_loop fuel Date_parse this cs ?w2))" by (rule fetch_loop_nc)
  then obtain rest2 where t3: "trace w' = trace ?w2 @ rest2"
    using rest by (auto dest: growsD)
  show ?case
  proof (cases "c = a")
    case True
    have tr: "trace w' = trace w @ [] @ ListEvents c ?st JNull # rest1 @
                DbSet (c @ ''.nextSyncToken'') tok # rest2"
      using t1 t2 t3 True by simp
    have "db w' (c @ ''.nextSyncToken'') = Some tok" if "distinct (a # cs)"
    proof -
      from that True have "c \<notin> set cs" by simp
      from fetch_loop_frame [OF this, of fuel Date_parse this ?w2] rest True
      show ?thesis by (simp add: db_set_def)
    qed
    with tr True show ?thesis by blast
  next
    case False
    with Cons.prems(2) have c: "c \<in> set cs" by simp
    from Cons.IH [OF rest c] obtain pre st mid v post where
      ih: "trace w' = trace ?w2 @ pre @ ListEvents c st JNull # mid @
             DbSet (c @ ''.nextSyncToken'') v # post"
      and ihd: "distinct cs \<longrightarrow> st = db_get ?w2 (c @ ''.nextSyncToken'') \<and>
                 db w' (c @ ''.nextSyncToken'') = Some v"
      by blast
    have tr: "trace w' = trace w @ (ListEvents a ?st JNull # rest1 @
                [DbSet (a @ ''.nextSyncToken'') tok] @ pre) @ ListEvents c st JNull # mid @
                DbSet (c @ ''.nextSyncToken'') v # post"
      using ih t1 t2 by simp
    have "db_get ?w2 (c @ ''.nextSyncToken'') = db_get w (c @ ''.nextSyncToken'')"
      using False d1 by (simp add: db_get_def db_set_def)
    with ihd have "distinct (a # cs) \<longrightarrow> st = db_get w (c @ ''.nextSyncToken'') \<and>
                 db w' (c @ ''.nextSyncToken'') = Some v"
      by simp
    with tr show ?thesis by blast
  qed
qed

lemma list_while_first_stop:
  assumes "list_while fuel Date_parse this c st JNull npt w = (Some tok, w1)"
  shows "\<exists>k<fuel. stops_loop (list_resps w k) \<and> (\<forall>i<k. \<not> stops_loop (list_resps w i))"
proof -
  have "\<exists>k<fuel. stops_loop (list_resps w k)"
  proof (rule ccontr)
    assume "\<not> (\<exists>k<fuel. stops_loop (list_resps w k))"
    then have "\<forall>k<fuel. \<not> stops_loop (list_resps w k)" by blast
    then have "fst (list_while fuel Date_parse this c st JNull npt w) = None"
      by (rule list_while_runs_on) simp
    with assms show False by simp
  qed
  then obtain k where k: "k < fuel" "stops_loop (list_resps w k)" by blast
  define m where "m = (LEAST j. stops_loop (list_resps w j))"
  have sm: "stops_loop (list_resps w m)" unfolding m_def using k(2) by (rule LeastI)
  have "m \<le> k" unfolding m_def using k(2) by (rule Least_le)
  with k(1) have "m < fuel" by simp
  moreover have "\<forall>i<m. \<not> stops_loop (list_resps w i)"
    unfolding m_def using not_less_Least by blast
  ultimately show ?thesis using sm by blast
qed

lemma fetch_loop_cycles:
  "fetch_loop fuel Date_parse this cs w = (True, w') \<Longrightarrow>
   \<exists>ks. first_stops Date_parse this cs ks w \<and> list_all (\<lambda>k. k < fuel) ks \<and>
        w' = fetch_world Date_parse this cs ks w"
proof (induction cs arbitrary: w)
  case Nil
  have "first_stops Date_parse this [] [] w \<and> list_all (\<lambda>k. k < fuel) [] \<and>
        w' = fetch_world Date_parse this [] [] w"
    using Nil by simp
  then show ?case by (rule exI)
next
  case (Cons a cs)
  let ?st = "db_get w (a @ ''.nextSyncToken'')"
  obtain r w1 where l: "list_while fuel Date_parse this a ?st JNull JNull w = (r, w1)"
    by (cases "list_while fuel Date_parse this a ?st JNull JNull w")
  from Cons.prems l obtain tok where r: "r = Some tok"
    by (cases r) (simp_all del: list_while.simps)
  from list_while_first_stop [OF l [unfolded r]] obtain k where
    k: "k < fuel" "stops_loop (list_resps w k)" "\<forall>i<k. \<not> stops_loop (list_resps w i)"
    by blast
  have c: "list_while fuel Date_parse this a ?st JNull JNull w =
     (Some (cycle_token w k),
      w\<lparr>trace := trace w @ cycle_effects Date_parse this a ?st JNull (map (list_resps w) [0..<Suc k]),
        fullSync_resps :=
          (if lr_status (list_resps w k) = 410 then (\<lambda>n. fullSync_resps w (Suc n))
           else fullSync_resps w),
        list_resps := (\<lambda>n. list_resps w (n + Suc k))\<rparr>)"
    using k(2,3,1) by (rule list_while_cycle) simp
  from l r c have tk: "tok = cycle_token w k"
    and w1: "w1 = w\<lparr>trace := trace w @
          cycle_effects Date_parse this a ?st JNull (map (list_resps w) [0..<Suc k]),
        fullSync_resps :=
          (if lr_status (list_resps w k) = 410 then (\<lambda>n. fullSync_resps w (Suc n))
           else fullSync_resps w),
        list_resps := (\<lambda>n. list_resps w (n + Suc k))\<rparr>"
    by (simp_all del: list_while.simps upt_Suc)
  have w2: "db_set (a @ ''.nextSyncToken'') tok w1 = cycle_world Date_parse this a k w"
    unfolding tk w1 by (simp add: db_set_def cycle_world_def del: upt_Suc)
  from Cons.prems l r w2
  have "fetch_loop fuel Date_parse this cs (cycle_world Date_parse this a k w) = (True, w')"
    by (simp del: list_while.simps)
  from Cons.IH [OF this] obtain ks where
    ks: "first_stops Date_parse this cs ks (cycle_world Date_parse this a k w)"
        "list_all (\<lambda>k. k < fuel) ks"
        "w' = fetch_world Date_parse this cs ks (cycle_world Date_parse this a k w)"
    by blast
  have "first_stops Date_parse this (a # cs) (k # ks) w \<and> list_all (\<lambda>k. k < fuel) (k # ks) \<and>
        w' = fetch_world Date_parse this (a # cs) (k # ks) w"
    using k ks by (simp add: list_all_iff)
  then show ?case by (rule exI)
qed

lemma fetch_world_loop:
  "first_stops Date_parse this cs ks w \<Longrightarrow> list_all (\<lambda>k. k < fuel) ks \<Longrightarrow>
   fetch_loop fuel Date_parse this cs w = (True, fetch_world Date_parse this cs ks w)"
proof (induction Date_parse this cs ks w rule: first_stops.induct)
  case (1 Date_parse this w)
  show ?case by simp
next
  case (2 Date_parse this c cs k ks w)
  let ?st = "db_get w (c @ ''.nextSyncToken'')"
  from "2.prems" have k: "stops_loop (list_resps w k)" "\<forall>i<k. \<not> stops_loop (list_resps w i)"
    "k < fuel"
    and rest: "first_stops Date_parse this cs ks (cycle_world Date_parse this c k w)"
      "list_all (\<lambda>k. k < fuel) ks"
    by (simp_all add: list_all_iff)
  have c: "list_while fuel Date_parse this c ?st JNull JNull w =
     (Some (cycle_token w k),
      w\<lparr>trace := trace w @ cycle_effects Date_parse this c ?st JNull (map (list_resps w) [0..<Suc k]),
        fullSync_resps :=
          (if lr_status (list_resps w k) = 410 then (\<lambda>n. fullSync_resps w (Suc n))
           else fullSync_resps w),
        list_resps := (\<lambda>n. list_resps w (n + Suc k))\<rparr>)"
    using k by (rule list_while_cycle) simp
  have w2: "db_set (c @ ''.nextSyncToken'') (cycle_token w k)
      (w\<lparr>trace := trace w @ cycle_effects Date_parse this c ?st JNull (map (list_resps w) [0..<Suc k]),
        fullSync_resps :=
          (if lr_status (list_resps w k) = 410 then (\<lambda>n. fullSync_resps w (Suc n))
           else fullSync_resps w),
        list_resps := (\<lambda>n. list_resps w (n + Suc k))\<rparr>) = cycle_world Date_parse this c k w"
    by (simp add: db_set_def cycle_world_def del: upt_Suc)
  from "2.IH" [OF rest] show ?case
    by (simp only: fetch_loop.simps fetch_world.simps Let_def c prod.case option.case w2)
qed simp_all

text \<open>
  Claim C9. On a valid notification (known channel, state \<^verbatim>\<open>exists\<close>):

  \<^item> \<^verbatim>\<open>run\<close> returns whenever the remote side keeps sending responses that end a
    pagination loop;
  \<^item> \<^verbatim>\<open>run\<close> returns within a bound on list requests exactly when every calendar's
    first loop-ending response lies within the bound, and the world it returns is then the
    one of \<open>fetch_world\<close>: one fetch cycle per configured calendar, in order, whichever
    channel sent the notification. A cycle reads the calendar's persisted token, makes one
    list request per response up to the first that ends the loop, each with the page token
    of the response before, emits the relevant events of every page that is not cancelled,
    and persists the token the cycle ends with;
  \<^item> so for every configured calendar the trace holds a first-page list request for that
    calendar followed by a write of its \<^verbatim>\<open>nextSyncToken\<close>; with distinct calendar ids the
    request carries the token that was persisted and the written token is the one persisted
    at the end.
\<close>

theorem run_fetches_every_calendar:
  assumes "\<not> is_timer_tick event"
      and "header event ''x-goog-channel-id'' \<in>
             set (map (\<lambda>calendarId. db_get w (calendarId @ ''.channelId'')) (calendarIds this))"
      and "header event ''x-goog-resource-state'' = JStr ''exists''"
  shows "((\<forall>n. \<exists>k\<ge>n. stops_loop (list_resps w k)) \<longrightarrow>
            (\<exists>fuel w'. run fuel Date_parse this now event w = (True, w'))) \<and>
         (\<forall>fuel w'. (run fuel Date_parse this now event w = (True, w')) =
            (\<exists>ks. first_stops Date_parse this (calendarIds this) ks w \<and>
                  list_all (\<lambda>k. k < fuel) ks \<and>
                  w' = fetch_world Date_parse this (calendarIds this) ks w)) \<and>
         (\<forall>fuel w'. run fuel Date_parse this now event w = (True, w') \<longrightarrow>
            (\<forall>c \<in> set (calendarIds this).
               \<exists>pre st mid v post.
                 new_effects w w' = pre @ ListEvents c st JNull # mid @
                                      DbSet (c @ ''.nextSyncToken'') v # post \<and>
                 (distinct (calendarIds this) \<longrightarrow>
                    st = db_get w (c @ ''.nextSyncToken'') \<and>
                    db w' (c @ ''.nextSyncToken'') = Some v)))"
proof (intro conjI impI allI ballI)
  assume "\<forall>n. \<exists>k\<ge>n. stops_loop (list_resps w k)"
  then have "\<exists>fuel w'. fetch_loop fuel Date_parse this (calendarIds this) w = (True, w')"
    by (rule fetch_loop_terminates)
  then show "\<exists>fuel w'. run fuel Date_parse this now event w = (True, w')"
    by (simp add: run_fetch [OF assms])
next
  fix fuel w'
  show "(run fuel Date_parse this now event w = (True, w')) =
        (\<exists>ks. first_stops Date_parse this (calendarIds this) ks w \<and>
              list_all (\<lambda>k. k < fuel) ks \<and>
              w' = fetch_world Date_parse this (calendarIds this) ks w)"
    unfolding run_fetch [OF assms]
    using fetch_loop_cycles [of fuel Date_parse this "calendarIds this" w w']
      fetch_world_loop [of Date_parse this "calendarIds this" _ w fuel]
    by blast
next
  fix fuel w' c
  assume r: "run fuel Date_parse this now event w = (True, w')"
    and c: "c \<in> set (calendarIds this)"
  from r have "fetch_loop fuel Date_parse this (calendarIds this) w = (True, w')"
    by (simp add: run_fetch [OF assms])
  from fetch_loop_each [OF this c] obtain pre st mid v post where
    "trace w' = trace w @ pre @ ListEvents c st JNull # mid @ DbSet (c @ ''.nextSyncToken'') v # post"
    "distinct (calendarIds this) \<longrightarrow>
                st = db_get w (c @ ''.nextSyncToken'') \<and> db w' (c @ ''.nextSyncToken'') = Some v"
    by blast
  then show "\<exists>pre st mid v post.
             new_effects w w' = pre @ ListEvents c st JNull # mid @
                                  DbSet (c @ ''.nextSyncToken'') v # post \<and>
             (distinct (calendarIds this) \<longrightarrow>
                st = db_get w (c @ ''.nextSyncToken'') \<and> db w' (c @ ''.nextSyncToken'') = Some v)"
    by (simp add: new_effects_def) blast
qed

section \<open>Evaluating the handler on concrete inputs\<close>

text \<open>Rewrite rules that run the pagination loop one list response at a time.\<close>

lemma list_while_numeral:
  "list_while (numeral k) Date_parse this c st nst npt w =
   list_while (Suc (pred_numeral k)) Date_parse this c st nst npt w"
  by (simp only: numeral_eq_Suc)

lemmas page_eval = page_world_def default_data_def ex_defs op_defs isEventRelevant_def
  generateMeta_def digits_of.simps digit_char_def

subsection \<open>Renewal on a timer tick\<close>

text \<open>The trigger of the timer branch, for a parsable expiration of the first calendar.\<close>

lemma run_timer_tick:
  assumes "interval_seconds event = Some secs" "secs \<noteq> 0"
      and "parseInt (db_get w (first_calendarId this @ ''.expiration'')) = Some T"
      and "\<bar>T\<bar> \<le> 8640000000000000"
  shows "run fuel Date_parse this now event w =
     (if now + secs * 1000 > T then (True, stopWatchRequest this (makeWatchRequest this w))
      else (True, w))"
  using assms by (simp add: run_def is_timer_tick_def Let_def Date_getTime_def)

lemma make_body_grows:
  assumes "\<And>c i a. P (Watch c i a)" "\<And>c. P (FullSync c)" "\<And>k v. P (DbSet k v)"
  shows "grows P w (makeWatchRequest_body this c w)"
  by (rule growsI [OF make_body_trace]) (simp add: assms)

lemma make_loop_grows:
  assumes "\<And>c i a. P (Watch c i a)" "\<And>c. P (FullSync c)" "\<And>k v. P (DbSet k v)"
  shows "grows P w (makeWatchRequest_loop this cs w)"
proof (induction cs arbitrary: w)
  case Nil
  show ?case by (simp add: grows_refl)
next
  case (Cons c cs)
  have "grows P w (makeWatchRequest_body this c w)" using assms by (rule make_body_grows)
  with Cons.IH show ?case using grows_trans by fastforce
qed

text \<open>
  The stop calls of a renewal are made for the channels that are persisted once
  \<^verbatim>\<open>makeWatchRequest\<close> has run, that is, for the channels it has just created.
\<close>

lemma renewal_stop_calls:
  assumes "distinct (calendarIds this)"
  shows "filter is_stop (new_effects w (stopWatchRequest this (makeWatchRequest this w))) =
         map (stop_call (makeWatchRequest this w))
           (filter (has_channel (makeWatchRequest this w)) (calendarIds this))"
proof -
  let ?w1 = "makeWatchRequest this w"
  have "grows (\<lambda>e. \<not> is_stop e) w ?w1"
    unfolding makeWatchRequest_def by (rule make_loop_grows) simp_all
  then obtain n1 where n1: "trace ?w1 = trace w @ n1" "list_all (\<lambda>e. \<not> is_stop e) n1"
    by (auto dest: growsD)
  obtain n2 where n2: "trace (stopWatchRequest this ?w1) = trace ?w1 @ n2"
    "filter is_stop n2 = map (stop_call ?w1) (filter (has_channel ?w1) (calendarIds this))"
    using stop_loop_stops [OF assms, of ?w1] unfolding stopWatchRequest_def by blast
  from n1(2) have "filter is_stop n1 = []" by (simp add: list_all_iff)
  with n1(1) n2 show ?thesis by (simp add: new_effects_def)
qed

lemma make_body_db:
  "db (makeWatchRequest_body this c w) =
     (db w)(c @ ''.nextSyncToken'' \<mapsto> fullSync_resps w 0,
            c @ ''.channelId'' \<mapsto> wd_id (watch_resps w 0),
            c @ ''.resourceId'' \<mapsto> wd_resourceId (watch_resps w 0),
            c @ ''.expiration'' \<mapsto> wd_expiration (watch_resps w 0))"
  by (simp add: makeWatchRequest_body_def uuid_def googleCalendar_watch_def
      googleCalendar_fullSync_def db_set_def)

lemma renewal_stops_created_channel:
  assumes "calendarIds this = [c]"
      and "truthy (wd_id (watch_resps w 0))" "truthy (wd_resourceId (watch_resps w 0))"
  shows "filter is_stop (new_effects w (stopWatchRequest this (makeWatchRequest this w))) =
         [Stop (wd_id (watch_resps w 0)) (wd_resourceId (watch_resps w 0))]"
proof -
  have w1: "makeWatchRequest this w = makeWatchRequest_body this c w"
    by (simp add: makeWatchRequest_def assms(1))
  have ch: "db_get (makeWatchRequest this w) (c @ ''.channelId'') = wd_id (watch_resps w 0)"
    and rs: "db_get (makeWatchRequest this w) (c @ ''.resourceId'') = wd_resourceId (watch_resps w 0)"
    unfolding w1 by (simp_all add: db_get_def make_body_db)
  have "distinct (calendarIds this)" by (simp add: assms(1))
  from renewal_stop_calls [OF this, of w] show ?thesis
    by (simp add: assms has_channel_def stop_call_def ch rs)
qed

text \<open>
  Claim C1, at a concrete timer tick. One calendar is watched through channel
  \<^verbatim>\<open>chan-1\<close> with expiration \<open>T = 1714557600000\<close>; the tick comes at
  \<open>now = 1714500000000\<close> with an interval of 82800 s, so \<open>now + intervalMs > T\<close>. The
  handler establishes the new channel \<^verbatim>\<open>chan-new\<close> and persists it, and then the stop
  call is made for \<^verbatim>\<open>chan-new\<close>, the channel just created, not for \<^verbatim>\<open>chan-1\<close>; on
  status 204 the four persisted fields are set to \<^verbatim>\<open>null\<close>.
\<close>

theorem run_renewal_stops_new_channel:
  "new_effects (ex_world (\<lambda>n. 204) ex_feed_gap)
     (snd (run 5 ex_Date_parse (ex_component [''cal1''] False) 1714500000000 ex_tick
             (ex_world (\<lambda>n. 204) ex_feed_gap))) =
     [Watch ''cal1'' ''chan-new'' ''https://hooks.example/e1'',
      FullSync (JStr ''cal1''),
      DbSet ''cal1.nextSyncToken'' (JStr ''tok-fresh''),
      DbSet ''cal1.channelId'' (JStr ''chan-new''),
      DbSet ''cal1.resourceId'' (JStr ''res-new''),
      DbSet ''cal1.expiration'' (JStr ''1715162400000''),
      Stop (JStr ''chan-new'') (JStr ''res-new''),
      Log ''webhook deactivated'',
      DbSet ''cal1.nextSyncToken'' JNull,
      DbSet ''cal1.channelId'' JNull,
      DbSet ''cal1.resourceId'' JNull,
      DbSet ''cal1.expiration'' JNull] \<and>
   map (db (snd (run 5 ex_Date_parse (ex_component [''cal1''] False) 1714500000000 ex_tick
                   (ex_world (\<lambda>n. 204) ex_feed_gap))))
       (resource_keys ''cal1'') = [Some JNull, Some JNull, Some JNull, Some JNull]"
  by (simp add: run_def is_timer_tick_def first_calendarId_def Let_def makeWatchRequest_def
      makeWatchRequest_body_def stopWatchRequest_def stopWatchRequest_body_def new_effects_def
      parseInt_def skip_ws_def ws_length_def digit_val_def Date_getTime_def ex_defs op_defs
      resource_keys_def)

subsection \<open>Invalidation during pagination\<close>

lemma ex_invalidated_list_while:
  "list_while 5 ex_Date_parse (ex_component [''cal1''] False) ''cal1'' (JStr ''tok-1'') JNull JNull
     (ex_world (\<lambda>n. 204) ex_feed_invalidated) =
   (Some (JStr ''tok-fresh''),
    (ex_world (\<lambda>n. 204) ex_feed_invalidated)
      \<lparr> trace :=
          [ListEvents ''cal1'' (JStr ''tok-1'') JNull,
           Emit ex_event_new
             \<lparr> meta_id = ''ev1-1714557602000'', meta_summary = JStr ''Standup'',
               meta_ts = Some 1714557602000 \<rparr>,
           ListEvents ''cal1'' (JStr ''tok-1'') (JStr ''page-2''),
           Log ''Sync token invalid, resyncing'',
           FullSync JUndefined],
        list_resps := (\<lambda>n. ex_feed_invalidated (Suc (Suc n))) \<rparr>)"
  apply (subst list_while_numeral)
  apply (subst list_while_step)
    apply simp
   apply (simp add: ex_defs)
  apply (simp add: page_eval del: list_while.simps)
  apply (subst list_while_numeral)
  apply (subst list_while_invalidated)
    apply simp
   apply (simp add: ex_defs)
  apply (simp add: this_calendarId_def ex_defs)
  done

text \<open>
  Claim C2, at a concrete three-page feed whose second request is answered with status 410.
  The event of the first page is emitted, the third page is never requested, and the token
  of the full sync is persisted for the calendar; the full sync itself is called with
  \<^verbatim>\<open>this.calendarId\<close>, which is \<^verbatim>\<open>undefined\<close>, not with the calendar being fetched.
\<close>

theorem run_invalidated_resyncs_undefined:
  "run 5 ex_Date_parse (ex_component [''cal1''] False) 1714500000000
     (ex_notification ''chan-1'' ''exists'') (ex_world (\<lambda>n. 204) ex_feed_invalidated) =
   (True,
    (ex_world (\<lambda>n. 204) ex_feed_invalidated)
      \<lparr> db := (db (ex_world (\<lambda>n. 204) ex_feed_invalidated))
                 (''cal1.nextSyncToken'' \<mapsto> JStr ''tok-fresh''),
        trace :=
          [ListEvents ''cal1'' (JStr ''tok-1'') JNull,
           Emit ex_event_new
             \<lparr> meta_id = ''ev1-1714557602000'', meta_summary = JStr ''Standup'',
               meta_ts = Some 1714557602000 \<rparr>,
           ListEvents ''cal1'' (JStr ''tok-1'') (JStr ''page-2''),
           Log ''Sync token invalid, resyncing'',
           FullSync JUndefined,
           DbSet ''cal1.nextSyncToken'' (JStr ''tok-fresh'')],
        list_resps := (\<lambda>n. ex_feed_invalidated (Suc (Suc n))) \<rparr>)"
proof -
  have "run 5 ex_Date_parse (ex_component [''cal1''] False) 1714500000000
     (ex_notification ''chan-1'' ''exists'') (ex_world (\<lambda>n. 204) ex_feed_invalidated) =
     fetch_loop 5 ex_Date_parse (ex_component [''cal1''] False) [''cal1'']
       (ex_world (\<lambda>n. 204) ex_feed_invalidated)"
    by (subst run_fetch)
       (simp_all add: is_timer_tick_def header_def ex_notification_def ex_component_def
          ex_world_def db_get_def)
  moreover have "db_get (ex_world (\<lambda>n. 204) ex_feed_invalidated) (''cal1'' @ ''.nextSyncToken'') = JStr ''tok-1''"
    by (simp add: db_get_def ex_world_def)
  ultimately show ?thesis
    by (simp add: ex_invalidated_list_while db_set_def del: list_while.simps)
qed

subsection \<open>Notifications\<close>


theorem run_resource_state_witness:
  "run 5 ex_Date_parse (ex_component [''cal1'', ''cal2''] False) 1714500000000
      (ex_notification ''chan-2'' ''exists'') (ex_world (\<lambda>n. 204) ex_feed_gap) =
     fetch_loop 5 ex_Date_parse (ex_component [''cal1'', ''cal2''] False) [''cal1'', ''cal2'']
      (ex_world (\<lambda>n. 204) ex_feed_gap) \<and>
   new_effects (ex_world (\<lambda>n. 204) ex_feed_gap)
     (snd (run 5 ex_Date_parse (ex_component [''cal1'', ''cal2''] False) 1714500000000
        (ex_notification ''chan-2'' ''not_exists'') (ex_world (\<lambda>n. 204) ex_feed_gap))) =
     [Log ''Resource does not exist. Exiting.''] \<and>
   new_effects (ex_world (\<lambda>n. 204) ex_feed_gap)
     (snd (run 5 ex_Date_parse (ex_component [''cal1'', ''cal2''] False) 1714500000000
        (ex_notification ''chan-2'' ''sync'') (ex_world (\<lambda>n. 204) ex_feed_gap))) =
     [Log ''New channel created''] \<and>
   new_effects (ex_world (\<lambda>n. 204) ex_feed_gap)
     (snd (run 5 ex_Date_parse (ex_component [''cal1'', ''cal2''] False) 1714500000000
        (ex_notification ''chan-2'' ''deleted'') (ex_world (\<lambda>n. 204) ex_feed_gap))) =
     [Log ''Unknown state: deleted'']"
proof -
  let ?W = "ex_world (\<lambda>n. 204) ex_feed_gap"
  let ?cmp = "ex_component [''cal1'', ''cal2''] False"
  have t: "\<not> is_timer_tick (ex_notification ''chan-2'' s)" for s
    by (simp add: is_timer_tick_def ex_notification_def)
  have k: "header (ex_notification ''chan-2'' s) ''x-goog-channel-id'' \<in>
             set (map (\<lambda>calendarId. db_get ?W (calendarId @ ''.channelId'')) (calendarIds ?cmp))" for s
    by (simp add: header_def ex_notification_def db_get_def ex_world_def ex_component_def)
  have st: "header (ex_notification ''chan-2'' s) ''x-goog-resource-state'' = JStr s" for s
    by (simp add: header_def ex_notification_def)
  have ids: "calendarIds ?cmp = [''cal1'', ''cal2'']" by (simp add: ex_component_def)
  from run_resource_state [OF t k, of "''exists''" 5 ex_Date_parse 1714500000000]
    run_resource_state [OF t k, of "''not_exists''" 5 ex_Date_parse 1714500000000]
    run_resource_state [OF t k, of "''sync''" 5 ex_Date_parse 1714500000000]
    run_resource_state [OF t k, of "''deleted''" 5 ex_Date_parse 1714500000000]
  show ?thesis
    unfolding st ids by (simp add: state_message_def)
qed

lemma ex_cancelled_list_while:
  "list_while 5 ex_Date_parse (ex_component [''cal1''] True) ''cal1'' (JStr ''tok-1'') JNull JNull
     (ex_world (\<lambda>n. 204) (\<lambda>n. ex_final_page [ex_event_cancelled, ex_event_edited, ex_event_new] ''tok-9'')) =
   (Some (JStr ''tok-9''),
    (ex_world (\<lambda>n. 204) (\<lambda>n. ex_final_page [ex_event_cancelled, ex_event_edited, ex_event_new] ''tok-9''))
      \<lparr> trace :=
          [ListEvents ''cal1'' (JStr ''tok-1'') JNull,
           Log ''Event cancelled. Exiting.'',
           Emit ex_event_new
             \<lparr> meta_id = ''ev1-1714557602000'', meta_summary = JStr ''Standup'',
               meta_ts = Some 1714557602000 \<rparr>] \<rparr>)"
  apply (subst list_while_numeral)
  apply (subst list_while_step)
    apply simp
   apply (simp add: ex_defs)
  apply (simp add: page_eval isNewEvent_def del: list_while.simps)
  apply (subst list_while_truthy)
   apply simp
  apply (simp add: ex_defs)
  done

theorem run_never_emits_cancelled_witness:
  "Emit ex_event_cancelled (generateMeta ex_Date_parse ex_event_cancelled) \<notin>
     set (new_effects
       (ex_world (\<lambda>n. 204) (\<lambda>n. ex_final_page [ex_event_cancelled, ex_event_edited, ex_event_new] ''tok-9''))
       (snd (run 5 ex_Date_parse (ex_component [''cal1''] True) 1714500000000
          (ex_notification ''chan-1'' ''exists'')
          (ex_world (\<lambda>n. 204) (\<lambda>n. ex_final_page [ex_event_cancelled, ex_event_edited, ex_event_new] ''tok-9''))))) \<and>
   new_effects
       (ex_world (\<lambda>n. 204) (\<lambda>n. ex_final_page [ex_event_cancelled, ex_event_edited, ex_event_new] ''tok-9''))
       (snd (run 5 ex_Date_parse (ex_component [''cal1''] True) 1714500000000
          (ex_notification ''chan-1'' ''exists'')
          (ex_world (\<lambda>n. 204) (\<lambda>n. ex_final_page [ex_event_cancelled, ex_event_edited, ex_event_new] ''tok-9'')))) =
     [ListEvents ''cal1'' (JStr ''tok-1'') JNull,
      Log ''Event cancelled. Exiting.'',
      Emit ex_event_new
        \<lparr> meta_id = ''ev1-1714557602000'', meta_summary = JStr ''Standup'',
          meta_ts = Some 1714557602000 \<rparr>,
      DbSet ''cal1.nextSyncToken'' (JStr ''tok-9'')]"
proof -
  let ?W = "ex_world (\<lambda>n. 204) (\<lambda>n. ex_final_page [ex_event_cancelled, ex_event_edited, ex_event_new] ''tok-9'')"
  let ?r = "run 5 ex_Date_parse (ex_component [''cal1''] True) 1714500000000
          (ex_notification ''chan-1'' ''exists'') ?W"
  have "?r = fetch_loop 5 ex_Date_parse (ex_component [''cal1''] True) [''cal1''] ?W"
    by (subst run_fetch)
       (simp_all add: is_timer_tick_def header_def ex_notification_def ex_component_def
          ex_world_def db_get_def)
  moreover have "db_get ?W (''cal1'' @ ''.nextSyncToken'') = JStr ''tok-1''"
    by (simp add: db_get_def ex_world_def)
  ultimately have ev: "new_effects ?W (snd ?r) =
     [ListEvents ''cal1'' (JStr ''tok-1'') JNull,
      Log ''Event cancelled. Exiting.'',
      Emit ex_event_new
        \<lparr> meta_id = ''ev1-1714557602000'', meta_summary = JStr ''Standup'',
          meta_ts = Some 1714557602000 \<rparr>,
      DbSet ''cal1.nextSyncToken'' (JStr ''tok-9'')]"
    by (simp add: ex_cancelled_list_while db_set_def new_effects_def del: list_while.simps)
       (simp add: ex_world_def)
  have "status ex_event_cancelled = JStr ''cancelled''" by (simp add: ex_event_cancelled_def)
  with run_never_emits_cancelled [of ?W 5 ex_Date_parse "ex_component [''cal1''] True"
      1714500000000 "ex_notification ''chan-1'' ''exists''"]
  have "Emit ex_event_cancelled (generateMeta ex_Date_parse ex_event_cancelled) \<notin>
     set (new_effects ?W (snd ?r))"
    by blast
  with ev show ?thesis by simp
qed

lemmas cycle_eval = cycle_world_def cycle_token_def page_effects_def default_data_def
  stops_loop_def isEventRelevant_def generateMeta_def digits_of.simps digit_char_def
  db_get_def ex_feed_two_def ex_defs

lemma ex_two_calendars_first_stops:
  "first_stops ex_Date_parse (ex_component [''cal1'', ''cal2''] False) [''cal1'', ''cal2'']
     [Suc 0, 0] (ex_world (\<lambda>n. 204) ex_feed_two)"
  by (simp add: cycle_eval)

lemma ex_two_calendars_effects:
  "new_effects (ex_world (\<lambda>n. 204) ex_feed_two)
     (fetch_world ex_Date_parse (ex_component [''cal1'', ''cal2''] False) [''cal1'', ''cal2'']
        [Suc 0, 0] (ex_world (\<lambda>n. 204) ex_feed_two)) =
     [ListEvents ''cal1'' (JStr ''tok-1'') JNull,
      Emit ex_event_new
        \<lparr> meta_id = ''ev1-1714557602000'', meta_summary = JStr ''Standup'',
          meta_ts = Some 1714557602000 \<rparr>,
      ListEvents ''cal1'' (JStr ''tok-1'') (JStr ''page-2''),
      Log ''Event cancelled. Exiting.'',
      Emit ex_event_edited
        \<lparr> meta_id = ''ev1-1714557602001'', meta_summary = JStr ''Standup (moved)'',
          meta_ts = Some 1714557602001 \<rparr>,
      DbSet ''cal1.nextSyncToken'' (JStr ''tok-A''),
      ListEvents ''cal2'' (JStr ''tok-2'') JNull,
      Emit ex_event_edited
        \<lparr> meta_id = ''ev1-1714557602001'', meta_summary = JStr ''Standup (moved)'',
          meta_ts = Some 1714557602001 \<rparr>,
      DbSet ''cal2.nextSyncToken'' (JStr ''tok-B'')]"
  by (simp add: new_effects_def cycle_eval)

lemma ex_two_calendars_tokens:
  "db (fetch_world ex_Date_parse (ex_component [''cal1'', ''cal2''] False) [''cal1'', ''cal2'']
        [Suc 0, 0] (ex_world (\<lambda>n. 204) ex_feed_two)) ''cal1.nextSyncToken'' = Some (JStr ''tok-A'') \<and>
   db (fetch_world ex_Date_parse (ex_component [''cal1'', ''cal2''] False) [''cal1'', ''cal2'']
        [Suc 0, 0] (ex_world (\<lambda>n. 204) ex_feed_two)) ''cal2.nextSyncToken'' = Some (JStr ''tok-B'')"
  by (simp add: cycle_eval)

theorem run_fetches_every_calendar_witness:
  "run 5 ex_Date_parse (ex_component [''cal1'', ''cal2''] False) 1714500000000
     (ex_notification ''chan-2'' ''exists'') (ex_world (\<lambda>n. 204) ex_feed_two) =
   (True, fetch_world ex_Date_parse (ex_component [''cal1'', ''cal2''] False) [''cal1'', ''cal2'']
            [Suc 0, 0] (ex_world (\<lambda>n. 204) ex_feed_two)) \<and>
   new_effects (ex_world (\<lambda>n. 204) ex_feed_two)
     (snd (run 5 ex_Date_parse (ex_component [''cal1'', ''cal2''] False) 1714500000000
        (ex_notification ''chan-2'' ''exists'') (ex_world (\<lambda>n. 204) ex_feed_two))) =
     [ListEvents ''cal1'' (JStr ''tok-1'') JNull,
      Emit ex_event_new
        \<lparr> meta_id = ''ev1-1714557602000'', meta_summary = JStr ''Standup'',
          meta_ts = Some 1714557602000 \<rparr>,
      ListEvents ''cal1'' (JStr ''tok-1'') (JStr ''page-2''),
      Log ''Event cancelled. Exiting.'',
      Emit ex_event_edited
        \<lparr> meta_id = ''ev1-1714557602001'', meta_summary = JStr ''Standup (moved)'',
          meta_ts = Some 1714557602001 \<rparr>,
      DbSet ''cal1.nextSyncToken'' (JStr ''tok-A''),
      ListEvents ''cal2'' (JStr ''tok-2'') JNull,
      Emit ex_event_edited
        \<lparr> meta_id = ''ev1-1714557602001'', meta_summary = JStr ''Standup (moved)'',
          meta_ts = Some 1714557602001 \<rparr>,
      DbSet ''cal2.nextSyncToken'' (JStr ''tok-B'')] \<and>
   db (snd (run 5 ex_Date_parse (ex_component [''cal1'', ''cal2''] False) 1714500000000
        (ex_notification ''chan-2'' ''exists'') (ex_world (\<lambda>n. 204) ex_feed_two)))
      ''cal1.nextSyncToken'' = Some (JStr ''tok-A'') \<and>
   db (snd (run 5 ex_Date_parse (ex_component [''cal1'', ''cal2''] False) 1714500000000
        (ex_notification ''chan-2'' ''exists'') (ex_world (\<lambda>n. 204) ex_feed_two)))
      ''cal2.nextSyncToken'' = Some (JStr ''tok-B'') \<and>
   (\<exists>fuel w'. run fuel ex_Date_parse (ex_component [''cal1'', ''cal2''] False) 1714500000000
        (ex_notification ''chan-2'' ''exists'') (ex_world (\<lambda>n. 204) ex_feed_two) = (True, w')) \<and>
   (\<exists>pre mid post.
      new_effects (ex_world (\<lambda>n. 204) ex_feed_two)
        (snd (run 5 ex_Date_parse (ex_component [''cal1'', ''cal2''] False) 1714500000000
           (ex_notification ''chan-2'' ''exists'') (ex_world (\<lambda>n. 204) ex_feed_two))) =
        pre @ ListEvents ''cal1'' (JStr ''tok-1'') JNull # mid @
          DbSet ''cal1.nextSyncToken'' (JStr ''tok-A'') # post)"
proof -
  let ?W = "ex_world (\<lambda>n. 204) ex_feed_two"
  let ?cmp = "ex_component [''cal1'', ''cal2''] False"
  let ?ev = "ex_notification ''chan-2'' ''exists''"
  let ?F = "fetch_world ex_Date_parse ?cmp [''cal1'', ''cal2''] [Suc 0, 0] ?W"
  let ?r = "run 5 ex_Date_parse ?cmp 1714500000000 ?ev ?W"
  have t: "\<not> is_timer_tick ?ev"
    by (simp add: is_timer_tick_def ex_notification_def)
  have k: "header ?ev ''x-goog-channel-id'' \<in>
             set (map (\<lambda>calendarId. db_get ?W (calendarId @ ''.channelId'')) (calendarIds ?cmp))"
    by (simp add: header_def ex_notification_def db_get_def ex_world_def ex_component_def)
  have st: "header ?ev ''x-goog-resource-state'' = JStr ''exists''"
    by (simp add: header_def ex_notification_def)
  have ids: "calendarIds ?cmp = [''cal1'', ''cal2'']" by (simp add: ex_component_def)
  have inf: "\<forall>n. \<exists>k\<ge>n. stops_loop (list_resps ?W k)"
  proof
    fix n
    have "stops_loop (list_resps ?W (Suc (Suc n)))"
      by (simp add: stops_loop_def default_data_def ex_world_def ex_feed_two_def ex_final_page_def)
    then show "\<exists>k\<ge>n. stops_loop (list_resps ?W k)"
      by (intro exI [of _ "Suc (Suc n)"]) simp
  qed
  note inst = run_fetches_every_calendar [OF t k st, of ex_Date_parse 1714500000000, unfolded ids]
  from inst inf have c0: "\<exists>fuel w'. run fuel ex_Date_parse ?cmp 1714500000000 ?ev ?W = (True, w')"
    by blast
  have "list_all (\<lambda>k. k < 5) [Suc 0, 0]" by simp
  with inst ex_two_calendars_first_stops have run5: "?r = (True, ?F)"
    by blast
  from inst run5 have "\<forall>c \<in> set [''cal1'', ''cal2''].
      \<exists>pre st mid v post.
        new_effects ?W ?F = pre @ ListEvents c st JNull # mid @
                              DbSet (c @ ''.nextSyncToken'') v # post \<and>
        (distinct [''cal1'', ''cal2''] \<longrightarrow>
           st = db_get ?W (c @ ''.nextSyncToken'') \<and> db ?F (c @ ''.nextSyncToken'') = Some v)"
    by blast
  then have "\<exists>pre st mid v post.
        new_effects ?W ?F = pre @ ListEvents ''cal1'' st JNull # mid @
                              DbSet (''cal1'' @ ''.nextSyncToken'') v # post \<and>
        (distinct [''cal1'', ''cal2''] \<longrightarrow>
           st = db_get ?W (''cal1'' @ ''.nextSyncToken'') \<and>
           db ?F (''cal1'' @ ''.nextSyncToken'') = Some v)"
    by (rule bspec) simp
  moreover have "db_get ?W (''cal1'' @ ''.nextSyncToken'') = JStr ''tok-1''"
    by (simp add: db_get_def ex_world_def)
  moreover have "db ?F (''cal1'' @ ''.nextSyncToken'') = Some (JStr ''tok-A'')"
    using ex_two_calendars_tokens by simp
  ultimately have c1: "\<exists>pre mid post.
        new_effects ?W ?F = pre @ ListEvents ''cal1'' (JStr ''tok-1'') JNull # mid @
                              DbSet ''cal1.nextSyncToken'' (JStr ''tok-A'') # post"
    by (simp del: fetch_world.simps)
  from run5 c0 c1 ex_two_calendars_effects ex_two_calendars_tokens show ?thesis
    by (simp only: snd_conv)
qed

subsection \<open>Pagination\<close>

lemma ex_gap_list_while:
  "list_while 5 ex_Date_parse (ex_component [''cal1''] False) ''cal1'' (JStr ''tok-1'') JNull JNull
     (ex_world (\<lambda>n. 204) ex_feed_gap) =
   (Some (JStr ''tok-3''),
    (ex_world (\<lambda>n. 204) ex_feed_gap)
      \<lparr> trace :=
          [ListEvents ''cal1'' (JStr ''tok-1'') JNull,
           ListEvents ''cal1'' (JStr ''tok-1'') (JStr ''page-2''),
           ListEvents ''cal1'' (JStr ''tok-1'') JUndefined],
        list_resps := (\<lambda>n. ex_final_page [] ''tok-3'') \<rparr>)"
  apply (subst list_while_numeral)
  apply (subst list_while_step)
    apply simp
   apply (simp add: ex_defs)
  apply (simp add: page_eval del: list_while.simps)
  apply (subst list_while_numeral)
  apply (subst list_while_step)
    apply simp
   apply (simp add: ex_defs)
  apply (simp add: page_eval empty_sync_data_def del: list_while.simps)
  apply (subst list_while_numeral)
  apply (subst list_while_final_page)
     apply (simp_all add: ex_defs default_data_def)[3]
  apply (simp add: page_eval)
  done

theorem list_while_termination_witness:
  "stops_loop (list_resps (ex_world (\<lambda>n. 204) ex_feed_gap) 2) \<and>
   (\<exists>fuel tok w'. list_while fuel ex_Date_parse (ex_component [''cal1''] False) ''cal1''
       (JStr ''tok-1'') JNull JNull (ex_world (\<lambda>n. 204) ex_feed_gap) = (Some tok, w')) \<and>
   fst (list_while 7 ex_Date_parse (ex_component [''cal1''] False) ''cal1''
       (JStr ''tok-1'') JNull JNull (ex_world (\<lambda>n. 204) (\<lambda>n. ex_empty_response))) = None \<and>
   (\<exists>mid rest.
      trace (snd (list_while (Suc (Suc 0)) ex_Date_parse (ex_component [''cal1''] False) ''cal1''
         (JStr ''tok-1'') JNull JNull (ex_world (\<lambda>n. 204) (\<lambda>n. ex_empty_response)))) =
      ListEvents ''cal1'' (JStr ''tok-1'') JNull # mid @
        ListEvents ''cal1'' (JStr ''tok-1'') JUndefined # rest)"
proof -
  let ?W = "ex_world (\<lambda>n. 204) ex_feed_gap"
  let ?E = "ex_world (\<lambda>n. 204) (\<lambda>n. ex_empty_response)"
  let ?cmp = "ex_component [''cal1''] False"
  have s2: "stops_loop (list_resps ?W 2)"
    by (simp add: stops_loop_def default_data_def ex_world_def ex_feed_gap_def ex_final_page_def)
  then have ex: "\<exists>k. stops_loop (list_resps ?W k)" ..
  have never: "\<forall>k. \<not> stops_loop (list_resps ?E k)"
    by (simp add: stops_loop_def default_data_def ex_world_def ex_empty_response_def
        empty_sync_data_def)
  then have n0: "\<not> stops_loop (list_resps ?E 0)" ..
  have npt: "nextPageToken (default_data (list_resps ?E 0)) = JUndefined"
    by (simp add: default_data_def ex_world_def ex_empty_response_def empty_sync_data_def)
  have tr: "trace ?E = []" by (simp add: ex_world_def)
  note a = list_while_termination [of ?W ex_Date_parse ?cmp "''cal1''" "JStr ''tok-1''"]
  note b = list_while_termination [of ?E ex_Date_parse ?cmp "''cal1''" "JStr ''tok-1''"]
  from a ex have c1: "\<exists>fuel tok w'. list_while fuel ex_Date_parse ?cmp ''cal1''
       (JStr ''tok-1'') JNull JNull ?W = (Some tok, w')"
    by blast
  from b never have c2: "fst (list_while 7 ex_Date_parse ?cmp ''cal1''
       (JStr ''tok-1'') JNull JNull ?E) = None"
    by blast
  from b n0 have "\<exists>mid rest.
      trace (snd (list_while (Suc (Suc 0)) ex_Date_parse ?cmp ''cal1'' (JStr ''tok-1'') JNull JNull ?E)) =
      trace ?E @ ListEvents ''cal1'' (JStr ''tok-1'') JNull # mid @
        ListEvents ''cal1'' (JStr ''tok-1'') (nextPageToken (default_data (list_resps ?E 0))) # rest"
    by blast
  then have c3: "\<exists>mid rest.
      trace (snd (list_while (Suc (Suc 0)) ex_Date_parse ?cmp ''cal1'' (JStr ''tok-1'') JNull JNull ?E)) =
      ListEvents ''cal1'' (JStr ''tok-1'') JNull # mid @
        ListEvents ''cal1'' (JStr ''tok-1'') JUndefined # rest"
    unfolding npt tr by simp
  from s2 c1 c2 c3 show ?thesis by blast
qed

subsection \<open>Teardown\<close>

theorem stopWatchRequest_clears_iff_204_witness:
  "has_channel (ex_world (\<lambda>n. if n = 0 then 500 else 204) ex_feed_gap) ''cal1'' \<and>
   has_channel (ex_world (\<lambda>n. if n = 0 then 500 else 204) ex_feed_gap) ''cal2'' \<and>
   map (db (stopWatchRequest (ex_component [''cal1'', ''cal2''] False)
              (ex_world (\<lambda>n. if n = 0 then 500 else 204) ex_feed_gap)))
       (resource_keys ''cal1'') =
     map (db (ex_world (\<lambda>n. if n = 0 then 500 else 204) ex_feed_gap)) (resource_keys ''cal1'') \<and>
   map (db (stopWatchRequest (ex_component [''cal1'', ''cal2''] False)
              (ex_world (\<lambda>n. if n = 0 then 500 else 204) ex_feed_gap)))
       (resource_keys ''cal2'') =
     [Some JNull, Some JNull, Some JNull, Some JNull]"
proof -
  let ?W = "ex_world (\<lambda>n. if n = 0 then 500 else 204) ex_feed_gap"
  let ?cmp = "ex_component [''cal1'', ''cal2''] False"
  have c1: "calendarIds ?cmp = [] @ ''cal1'' # [''cal2'']"
    and c2: "calendarIds ?cmp = [''cal1''] @ ''cal2'' # []"
    and d: "distinct (calendarIds ?cmp)"
    by (simp_all add: ex_component_def)
  have h1: "has_channel ?W ''cal1''" and h2: "has_channel ?W ''cal2''"
    by (simp_all add: has_channel_def db_get_def ex_world_def)
  have s1: "stop_resps ?W (length (filter (has_channel ?W) [])) = 500"
    by (simp add: ex_world_def)
  have s2: "stop_resps ?W (length (filter (has_channel ?W) [''cal1''])) = 204"
    using h1 by (simp add: ex_world_def)
  from stopWatchRequest_clears_iff_204 [OF c1 d h1] s1
  have r1: "map (db (stopWatchRequest ?cmp ?W)) (resource_keys ''cal1'') =
            map (db ?W) (resource_keys ''cal1'')"
    by simp
  from stopWatchRequest_clears_iff_204 [OF c2 d h2] s2
  have r2: "map (db (stopWatchRequest ?cmp ?W)) (resource_keys ''cal2'') =
            [Some JNull, Some JNull, Some JNull, Some JNull]"
    by simp
  from h1 h2 r1 r2 show ?thesis by simp
qed

end
